theory Spec2Isabelle
  imports Complex_Main
begin

section \<open>Data model of \<^verbatim>\<open>backend/game.go\<close>\<close>

text \<open>
  A Go \<^verbatim>\<open>string\<close> is a sequence of bytes and is modelled as a \<^typ>\<open>string\<close>
  (a list of 8-bit characters). The struct \<^verbatim>\<open>Game\<close> keeps its four string fields.
  The spec's mark-A and mark-B are the bytes \<^verbatim>\<open>X\<close> and \<^verbatim>\<open>O\<close> of the source, the
  empty cell is \<^verbatim>\<open>-\<close>, and the winner "none" is the empty string.
\<close>

record Game =
  ID :: string
  Board :: string
  Turn :: string
  Winner :: string

text \<open>
  The global \<^verbatim>\<open>games = map[string]*Game{}\<close>. Every pointer stored in the map is
  allocated by \<^verbatim>\<open>createGameRPC\<close> and stored under one key only, so no two keys share a
  record and a map from identifiers to records has the same behaviour.
\<close>

type_synonym store = "string \<rightharpoonup> Game"

text \<open>
  A value that \<^verbatim>\<open>json.Unmarshal\<close> stores in an \<^verbatim>\<open>interface{}\<close>: \<^verbatim>\<open>nil\<close>, \<^verbatim>\<open>bool\<close>,
  \<^verbatim>\<open>float64\<close>, \<^verbatim>\<open>string\<close>, \<^verbatim>\<open>[]interface{}\<close> or \<^verbatim>\<open>map[string]interface{}\<close>.
  A number is always decoded to a finite \<^verbatim>\<open>float64\<close>; every finite \<^verbatim>\<open>float64\<close> is a
  rational number, and the only operation the handlers apply to it is the exact
  conversion \<^verbatim>\<open>int(v)\<close>, so the number is carried as a \<^typ>\<open>rat\<close>.
\<close>

datatype jvalue =
    JNull
  | JBool bool
  | JNum rat
  | JStr string
  | JArr "jvalue list"
  | JObj "(string \<times> jvalue) list"

text \<open>
  The result of \<^verbatim>\<open>json.Unmarshal([]byte(payload), &in)\<close> with
  \<^verbatim>\<open>in map[string]interface{}\<close>: \<open>None\<close> when it returns an error, otherwise the decoded
  object as a map from keys to values.
\<close>

type_synonym decoded = "(string \<rightharpoonup> jvalue) option"

text \<open>
  The errors the handlers return, one constructor for each \<^verbatim>\<open>errors.New\<close> message, and
  \<open>Panic\<close> for a Go run-time panic (an index out of range).
\<close>

datatype rpc_error =
    InvalidPayloadJSON      \<comment> \<open>\<^verbatim>\<open>invalid payload JSON\<close>\<close>
  | MissingGameId           \<comment> \<open>\<^verbatim>\<open>missing game_id\<close>\<close>
  | MissingCell             \<comment> \<open>\<^verbatim>\<open>missing cell\<close>\<close>
  | InvalidCellIndex        \<comment> \<open>\<^verbatim>\<open>invalid cell index\<close>\<close>
  | CellIndexOutOfRange     \<comment> \<open>\<^verbatim>\<open>cell index out of range\<close>\<close>
  | GameNotFound            \<comment> \<open>\<^verbatim>\<open>game not found\<close>\<close>
  | GameAlreadyFinished     \<comment> \<open>\<^verbatim>\<open>game already finished\<close>\<close>
  | CellAlreadyOccupied     \<comment> \<open>\<^verbatim>\<open>cell already occupied\<close>\<close>
  | Panic

text \<open>
  The response maps before \<^verbatim>\<open>json.Marshal\<close>; the field \<^verbatim>\<open>ok\<close> is \<^verbatim>\<open>true\<close> in each.
  \<open>CreateResp game_id board turn\<close>, \<open>MoveResp game board turn winner\<close>, \<open>GetResp game\<close>.
\<close>

datatype response =
    CreateResp string string string
  | MoveResp Game string string string
  | GetResp Game

text \<open>
  The error taxonomy of the spec: \<open>InvalidIndex\<close> covers both index messages of the
  source.
\<close>

definition isInvalidIndex :: "rpc_error \<Rightarrow> bool" where
  "isInvalidIndex e = (e = InvalidCellIndex \<or> e = CellIndexOutOfRange)"

section \<open>Library functions the handlers call\<close>

text \<open>
  \<^verbatim>\<open>fmt.Sprintf("%d", n)\<close> for a number \<open>n \<ge> 0\<close>: its decimal digits.
\<close>

definition digitChar :: "nat \<Rightarrow> char" where
  "digitChar d = char_of (48 + d)"

fun decimal :: "nat \<Rightarrow> string" where
  "decimal n = (if n < 10 then [digitChar n] else decimal (n div 10) @ [digitChar (n mod 10)])"

declare decimal.simps [simp del]

text \<open>
  \<^verbatim>\<open>fmt.Sprintf("%v", x)\<close>: a string is printed as it is. How the other kinds of value
  are printed plays no role in any property below and is left as the parameter
  \<open>other\<close>.
\<close>

definition sprintf_v :: "(jvalue \<Rightarrow> string) \<Rightarrow> jvalue \<Rightarrow> string" where
  "sprintf_v other x = (case x of JStr s \<Rightarrow> s | _ \<Rightarrow> other x)"

text \<open>
  The conversion \<^verbatim>\<open>int(v)\<close> of a finite \<^verbatim>\<open>float64\<close>: the fraction is discarded
  (truncation towards zero). For a value that does not fit in 64 bits Go leaves the result
  to the implementation; the model takes the smallest 64-bit integer, which is what the
  amd64 instruction gives. The handler only compares the result with 0 and 8 before using
  it, so any result outside \<open>[0,8]\<close> there (such as arm64's saturated value) behaves alike.
\<close>

definition int_of_float64 :: "rat \<Rightarrow> int" where
  "int_of_float64 v =
     (let t = (if 0 \<le> v then \<lfloor>v\<rfloor> else \<lceil>v\<rceil>)
      in if - (2 ^ 63) \<le> t \<and> t < 2 ^ 63 then t else - (2 ^ 63))"

text \<open>
  \<^verbatim>\<open>strconv.Atoi\<close>, the integer it returns (the handler discards its error): an optional
  sign, then decimal digits read from the left. A syntax error gives 0; a number that
  leaves the 64-bit range gives the nearest bound, and is reported as soon as the digits
  read so far exceed 64 unsigned bits.
\<close>

datatype parsed = SyntaxError | RangeError | Parsed nat

definition isDigit :: "char \<Rightarrow> bool" where
  "isDigit c = (48 \<le> (of_char c :: nat) \<and> (of_char c :: nat) \<le> 57)"

fun parseDigits :: "nat \<Rightarrow> string \<Rightarrow> parsed" where
  "parseDigits n [] = Parsed n"
| "parseDigits n (c # cs) =
     (if \<not> isDigit c then SyntaxError
      else let n1 = 10 * n + (of_char c - 48)
           in if n1 > 2 ^ 64 - 1 then RangeError else parseDigits n1 cs)"

definition Atoi :: "string \<Rightarrow> int" where
  "Atoi s =
     (let neg = (s \<noteq> [] \<and> hd s = CHR ''-'');
          ds = (if s \<noteq> [] \<and> (hd s = CHR ''-'' \<or> hd s = CHR ''+'') then tl s else s)
      in if ds = [] then 0
         else (case parseDigits 0 ds of
                 SyntaxError \<Rightarrow> 0
               | RangeError \<Rightarrow> (if neg then - (2 ^ 63) else 2 ^ 63 - 1)
               | Parsed un \<Rightarrow>
                   if \<not> neg \<and> un \<ge> 2 ^ 63 then 2 ^ 63 - 1
                   else if neg \<and> un > 2 ^ 63 then - (2 ^ 63)
                   else if neg then - int un else int un))"

section \<open>The game engine\<close>

definition newBoard :: string where
  "newBoard = ''---------''"

text \<open>
  \<^verbatim>\<open>genID\<close> draws \<^verbatim>\<open>rand.Intn(1000000)\<close>; the number drawn is the argument \<open>n\<close>,
  with \<open>n < 1000000\<close>.
\<close>

definition genID :: "nat \<Rightarrow> string" where
  "genID n = ''g-'' @ decimal n"

definition winLines :: "(nat \<times> nat \<times> nat) list" where
  "winLines =
     [(0, 1, 2), (3, 4, 5), (6, 7, 8),
      (0, 3, 6), (1, 4, 7), (2, 5, 8),
      (0, 4, 8), (2, 4, 6)]"

text \<open>
  \<^verbatim>\<open>string(a)\<close> of a byte \<open>a\<close> is the UTF-8 encoding of the code point \<open>a\<close>: the byte
  itself below 128, two bytes from 128 on.
\<close>

definition string_of_byte :: "char \<Rightarrow> string" where
  "string_of_byte a =
     (let n = (of_char a :: nat)
      in if n < 128 then [a] else [char_of (192 + n div 64), char_of (128 + n mod 64)])"

text \<open>
  The loop of \<^verbatim>\<open>checkWinner\<close> over the lines that are left. \<open>None\<close> is the panic of an
  index beyond the end of the board; \<open>Some ''''\<close> is the result "no winner".
\<close>

fun scanLines :: "(nat \<times> nat \<times> nat) list \<Rightarrow> string \<Rightarrow> string option" where
  "scanLines [] board = Some ''''"
| "scanLines ((i, j, k) # ws) board =
     (if length board \<le> i \<or> length board \<le> j \<or> length board \<le> k then None
      else let a = board ! i; b = board ! j; c = board ! k
           in if a \<noteq> CHR ''-'' \<and> a = b \<and> b = c then Some (string_of_byte a)
              else scanLines ws board)"

definition checkWinner :: "string \<Rightarrow> string option" where
  "checkWinner board = scanLines winLines board"

section \<open>The three handlers\<close>

text \<open>
  Each handler takes the store and returns its result with the store it leaves. The
  context, logger, database and module arguments are not used by the source.
  \<open>createGameRPC\<close> also takes the number \<open>n\<close> that \<^verbatim>\<open>genID\<close> draws, and
  \<open>makeMoveRPC\<close> and \<open>getGameRPC\<close> take the decoded payload.
\<close>

definition createGameRPC :: "nat \<Rightarrow> store \<Rightarrow> (rpc_error + response) \<times> store" where
  "createGameRPC n games =
     (let id = genID n;
          game = \<lparr>ID = id, Board = newBoard, Turn = ''X'', Winner = ''''\<rparr>
      in (Inr (CreateResp (ID game) (Board game) (Turn game)), games(id \<mapsto> game)))"

text \<open>
  The type switch on the decoded \<^verbatim>\<open>cell\<close>. The case \<^verbatim>\<open>int\<close> of the source cannot occur
  for a value decoded from JSON.
\<close>

definition cellIndex :: "jvalue \<Rightarrow> rpc_error + int" where
  "cellIndex cellF =
     (case cellF of
        JNum v \<Rightarrow> Inr (int_of_float64 v)
      | JStr v \<Rightarrow> Inr (Atoi v)
      | _ \<Rightarrow> Inl InvalidCellIndex)"

text \<open>
  \<^verbatim>\<open>makeMoveRPC\<close>. The board is written through \<^verbatim>\<open>[]rune(game.Board)\<close> and
  \<^verbatim>\<open>string(boardRunes)\<close>, which for a board and a turn of ASCII bytes is the update of one
  byte; the store only ever holds such boards (\<open>reachable_wf\<close> below), and the theorems
  about a move are stated for them. \<^verbatim>\<open>strings.Contains(game.Board, "-")\<close> holds when the
  byte \<^verbatim>\<open>-\<close> occurs in the board. The record is a pointer into the map: the assignment to
  \<^verbatim>\<open>game.Board\<close> is in the store before \<^verbatim>\<open>checkWinner\<close> runs.
\<close>

definition makeMoveRPC ::
  "(jvalue \<Rightarrow> string) \<Rightarrow> decoded \<Rightarrow> store \<Rightarrow> (rpc_error + response) \<times> store" where
  "makeMoveRPC other payload games =
     (case payload of
        None \<Rightarrow> (Inl InvalidPayloadJSON, games)
      | Some inp \<Rightarrow>
     (case inp ''game_id'' of
        None \<Rightarrow> (Inl MissingGameId, games)
      | Some gidRaw \<Rightarrow>
     (let gid = sprintf_v other gidRaw in
     (case inp ''cell'' of
        None \<Rightarrow> (Inl MissingCell, games)
      | Some cellF \<Rightarrow>
     (case cellIndex cellF of
        Inl e \<Rightarrow> (Inl e, games)
      | Inr cell \<Rightarrow>
     if cell < 0 \<or> cell > 8 then (Inl CellIndexOutOfRange, games)
     else
     (case games gid of
        None \<Rightarrow> (Inl GameNotFound, games)
      | Some game \<Rightarrow>
     if Winner game \<noteq> '''' then (Inl GameAlreadyFinished, games)
     else if length (Board game) \<le> nat cell then (Inl Panic, games)
     else if Board game ! nat cell \<noteq> CHR ''-'' then (Inl CellAlreadyOccupied, games)
     else
     (case Turn game of
        [] \<Rightarrow> (Inl Panic, games)
      | t # _ \<Rightarrow>
     (let board' = (Board game)[nat cell := t];
          game1 = game\<lparr>Board := board'\<rparr>
      in
     (case checkWinner board' of
        None \<Rightarrow> (Inl Panic, games(gid \<mapsto> game1))
      | Some winner \<Rightarrow>
     (let game2 =
            (if winner \<noteq> '''' then game1\<lparr>Winner := winner\<rparr>
             else if CHR ''-'' \<notin> set board' then game1\<lparr>Winner := ''draw''\<rparr>
             else game1\<lparr>Turn := (if Turn game1 = ''X'' then ''O'' else ''X'')\<rparr>)
      in (Inr (MoveResp game2 (Board game2) (Turn game2) (Winner game2)),
          games(gid \<mapsto> game2))))))))))))"

definition getGameRPC :: "(jvalue \<Rightarrow> string) \<Rightarrow> decoded \<Rightarrow> store \<Rightarrow> rpc_error + response" where
  "getGameRPC other payload games =
     (case payload of
        None \<Rightarrow> Inl InvalidPayloadJSON
      | Some inp \<Rightarrow>
     (case inp ''game_id'' of
        None \<Rightarrow> Inl MissingGameId
      | Some gidRaw \<Rightarrow>
     (case games (sprintf_v other gidRaw) of
        None \<Rightarrow> Inl GameNotFound
      | Some game \<Rightarrow> Inr (GetResp game))))"

section \<open>Vocabulary of the properties\<close>

text \<open>
  A line is won on a board when its three cells hold the same mark. The winner in the
  spec's words: the mark of the first won line in the order of \<open>winLines\<close>, the empty
  string when there is none.
\<close>

definition lineWon :: "string \<Rightarrow> nat \<times> nat \<times> nat \<Rightarrow> bool" where
  "lineWon board l =
     (case l of (i, j, k) \<Rightarrow>
        board ! i \<noteq> CHR ''-'' \<and> board ! i = board ! j \<and> board ! j = board ! k)"

definition specCheckWinner :: "string \<Rightarrow> string" where
  "specCheckWinner board =
     (case find (lineWon board) winLines of
        None \<Rightarrow> ''''
      | Some (i, j, k) \<Rightarrow> [board ! i])"

text \<open>
  The games the store holds: nine cells, each empty or a mark, a mark to move, and one of
  the four values of the winner.
\<close>

definition wf_board :: "string \<Rightarrow> bool" where
  "wf_board board =
     (length board = 9 \<and> list_all (\<lambda>c. c = CHR ''-'' \<or> c = CHR ''X'' \<or> c = CHR ''O'') board)"

definition wf_game :: "Game \<Rightarrow> bool" where
  "wf_game game =
     (wf_board (Board game) \<and> (Turn game = ''X'' \<or> Turn game = ''O'') \<and>
      (Winner game = '''' \<or> Winner game = ''X'' \<or> Winner game = ''O'' \<or>
       Winner game = ''draw''))"

definition wf_store :: "store \<Rightarrow> bool" where
  "wf_store games = (\<forall>gid game. games gid = Some game \<longrightarrow> wf_game game)"

text \<open>
  The stores the program can be in: it starts with the empty map, and the store only
  changes in \<^verbatim>\<open>createGameRPC\<close> (with any number drawn) and \<^verbatim>\<open>makeMoveRPC\<close> (with any
  payload); \<^verbatim>\<open>getGameRPC\<close> only reads it.
\<close>

inductive reachable :: "(jvalue \<Rightarrow> string) \<Rightarrow> store \<Rightarrow> bool" for other where
  start: "reachable other Map.empty"
| create: "reachable other games \<Longrightarrow> n < 1000000 \<Longrightarrow>
     reachable other (snd (createGameRPC n games))"
| move: "reachable other games \<Longrightarrow>
     reachable other (snd (makeMoveRPC other payload games))"

text \<open>A sequence of \<^verbatim>\<open>make_move\<close> calls, one after the other.\<close>

fun makeMoves :: "(jvalue \<Rightarrow> string) \<Rightarrow> decoded list \<Rightarrow> store \<Rightarrow> store" where
  "makeMoves other [] games = games"
| "makeMoves other (payload # rest) games =
     makeMoves other rest (snd (makeMoveRPC other payload games))"

text \<open>The number of cells that hold a given mark.\<close>

definition marks :: "char \<Rightarrow> Game \<Rightarrow> nat" where
  "marks m game = count_list (Board game) m"

text \<open>
  The two marks are in step: there are as many \<open>X\<close> as \<open>O\<close>, or one more; and while
  the game has no winner, it is the turn of \<open>X\<close> in the first case and of \<open>O\<close> in the
  second.
\<close>

definition balanced :: "Game \<Rightarrow> bool" where
  "balanced game =
     ((marks (CHR ''X'') game = marks (CHR ''O'') game \<or>
       marks (CHR ''X'') game = Suc (marks (CHR ''O'') game)) \<and>
      (Winner game = '''' \<longrightarrow>
         (if marks (CHR ''X'') game = marks (CHR ''O'') game
          then Turn game = ''X'' else Turn game = ''O'')))"

text \<open>
  The game a successful move leaves, in the spec's words (4.2): the mark of the turn is
  written into the cell; if a line is won the winner is its mark; otherwise, if no cell
  is empty, the winner is draw; otherwise the turn passes to the other mark.
\<close>

definition otherMark :: "string \<Rightarrow> string" where
  "otherMark turn = (if turn = ''X'' then ''O'' else ''X'')"

definition specApplyMove :: "Game \<Rightarrow> nat \<Rightarrow> Game" where
  "specApplyMove game c =
     (let board' = (Board game)[c := hd (Turn game)]
      in if \<exists>l \<in> set winLines. lineWon board' l
         then game\<lparr>Board := board', Winner := specCheckWinner board'\<rparr>
         else if CHR ''-'' \<notin> set board'
         then game\<lparr>Board := board', Winner := ''draw''\<rparr>
         else game\<lparr>Board := board', Turn := otherMark (Turn game)\<rparr>)"

text \<open>The value of a string of decimal digits, read from the left.\<close>

definition digitsValue :: "string \<Rightarrow> nat" where
  "digitsValue s = foldl (\<lambda>a c. 10 * a + (of_char c - 48)) 0 s"

section \<open>The winner check\<close>

lemma scanLines_find:
  assumes "\<forall>(i, j, k) \<in> set ws. i < length board \<and> j < length board \<and> k < length board"
  shows "scanLines ws board =
           Some (case find (lineWon board) ws of
                   None \<Rightarrow> ''''
                 | Some (i, j, k) \<Rightarrow> string_of_byte (board ! i))"
  using assms
proof (induction ws)
  case Nil
  then show ?case by simp
next
  case (Cons l ws)
  obtain i j k where l: "l = (i, j, k)" by (cases l) auto
  from Cons.prems l have bounds: "i < length board" "j < length board" "k < length board"
    by auto
  from Cons.prems have rest:
    "\<forall>(i, j, k) \<in> set ws. i < length board \<and> j < length board \<and> k < length board"
    by simp
  show ?case
  proof (cases "lineWon board l")
    case True
    with l bounds show ?thesis by (auto simp add: lineWon_def Let_def)
  next
    case False
    with l bounds Cons.IH [OF rest] show ?thesis
      by (auto simp add: lineWon_def Let_def)
  qed
qed

lemma winLines_bounds:
  "length board = 9 \<Longrightarrow>
   \<forall>(i, j, k) \<in> set winLines. i < length board \<and> j < length board \<and> k < length board"
  by (simp add: winLines_def)

lemma checkWinner_find:
  "length board = 9 \<Longrightarrow>
   checkWinner board =
     Some (case find (lineWon board) winLines of
             None \<Rightarrow> ''''
           | Some (i, j, k) \<Rightarrow> string_of_byte (board ! i))"
  unfolding checkWinner_def by (rule scanLines_find) (rule winLines_bounds)

lemma string_of_byte_ascii: "(of_char a :: nat) < 128 \<Longrightarrow> string_of_byte a = [a]"
  by (simp add: string_of_byte_def)

lemma find_winLines_index:
  "find P winLines = Some (i, j, k) \<Longrightarrow> i < 9 \<and> j < 9 \<and> k < 9"
  by (auto simp add: winLines_def split: if_splits)

lemma checkWinner_ascii:
  assumes "length board = 9" and "\<forall>c \<in> set board. (of_char c :: nat) < 128"
  shows "checkWinner board = Some (specCheckWinner board)"
proof (cases "find (lineWon board) winLines")
  case None
  with assms(1) show ?thesis by (simp add: checkWinner_find specCheckWinner_def)
next
  case (Some l)
  obtain i j k where l: "l = (i, j, k)" by (cases l) auto
  from Some l have "i < 9" using find_winLines_index by blast
  with assms have "(of_char (board ! i) :: nat) < 128" by simp
  with Some l assms(1) show ?thesis
    by (simp add: checkWinner_find specCheckWinner_def string_of_byte_ascii)
qed

lemma find_SomeD: "find P xs = Some x \<Longrightarrow> P x \<and> x \<in> set xs"
  by (auto simp add: find_Some_iff)

lemma specCheckWinner_empty_iff:
  "specCheckWinner board = '''' \<longleftrightarrow> \<not> (\<exists>l \<in> set winLines. lineWon board l)"
proof (cases "find (lineWon board) winLines")
  case None
  then have "\<not> (\<exists>l \<in> set winLines. lineWon board l)" by (auto simp add: find_None_iff)
  moreover from None have "specCheckWinner board = ''''" by (simp add: specCheckWinner_def)
  ultimately show ?thesis by simp
next
  case (Some l)
  then have "lineWon board l \<and> l \<in> set winLines" by (rule find_SomeD)
  then have "\<exists>l \<in> set winLines. lineWon board l" by auto
  moreover from Some have "specCheckWinner board \<noteq> ''''"
    by (cases l) (simp add: specCheckWinner_def)
  ultimately show ?thesis by simp
qed

lemma mark_ascii:
  "c = CHR ''-'' \<or> c = CHR ''X'' \<or> c = CHR ''O'' \<Longrightarrow> (of_char c :: nat) < 128"
  by (elim disjE) simp_all

lemma wf_board_ascii:
  assumes "wf_board board"
  shows "\<forall>c \<in> set board. (of_char c :: nat) < 128"
proof
  fix c
  assume "c \<in> set board"
  with assms have "c = CHR ''-'' \<or> c = CHR ''X'' \<or> c = CHR ''O''"
    by (simp add: wf_board_def list_all_iff)
  then show "(of_char c :: nat) < 128" by (rule mark_ascii)
qed

lemma wf_board_cell:
  "wf_board board \<Longrightarrow> i < 9 \<Longrightarrow>
   board ! i = CHR ''-'' \<or> board ! i = CHR ''X'' \<or> board ! i = CHR ''O''"
  by (simp add: wf_board_def list_all_length)

lemma checkWinner_wf: "wf_board board \<Longrightarrow> checkWinner board = Some (specCheckWinner board)"
  by (rule checkWinner_ascii) (simp add: wf_board_def, rule wf_board_ascii)

lemma specCheckWinner_wf:
  assumes "wf_board board"
  shows "specCheckWinner board = '''' \<or> specCheckWinner board = ''X'' \<or> specCheckWinner board = ''O''"
proof (cases "find (lineWon board) winLines")
  case None
  then show ?thesis by (simp add: specCheckWinner_def)
next
  case (Some l)
  obtain i j k where l: "l = (i, j, k)" by (cases l) auto
  from Some l have "i < 9" using find_winLines_index by blast
  with assms have cell: "board ! i = CHR ''-'' \<or> board ! i = CHR ''X'' \<or> board ! i = CHR ''O''"
    by (rule wf_board_cell)
  from Some have "lineWon board l" by (simp add: find_SomeD)
  with l have "board ! i \<noteq> CHR ''-''" by (auto simp add: lineWon_def)
  with cell have "[board ! i] = ''X'' \<or> [board ! i] = ''O''" by simp
  moreover from Some l have "specCheckWinner board = [board ! i]" by (simp add: specCheckWinner_def)
  ultimately show ?thesis by simp
qed

text \<open>
  C2. On every board of nine cells, each empty or a mark, \<open>checkWinner\<close> goes through the
  eight triples \<open>{0,1,2}, {3,4,5}, {6,7,8}, {0,3,6}, {1,4,7}, {2,5,8}, {0,4,8}, {2,4,6}\<close> in
  this order and returns the mark of the first triple whose three cells hold the same
  mark; it returns the empty string exactly when no triple is won. It never panics there,
  and it is a function of the board alone: it neither reads nor changes the store.
\<close>

theorem checkWinner_first_won_line:
  assumes "wf_board board"
  shows "winLines =
           [(0, 1, 2), (3, 4, 5), (6, 7, 8), (0, 3, 6), (1, 4, 7), (2, 5, 8), (0, 4, 8), (2, 4, 6)] \<and>
         checkWinner board =
           Some (case find (lineWon board) winLines of
                   None \<Rightarrow> ''''
                 | Some (i, j, k) \<Rightarrow> [board ! i]) \<and>
         (checkWinner board = Some '''' \<longleftrightarrow> \<not> (\<exists>l \<in> set winLines. lineWon board l)) \<and>
         (checkWinner board = Some '''' \<or> checkWinner board = Some ''X'' \<or>
          checkWinner board = Some ''O'')"
proof -
  have same: "checkWinner board = Some (specCheckWinner board)"
    using assms by (rule checkWinner_wf)
  have "winLines =
          [(0, 1, 2), (3, 4, 5), (6, 7, 8), (0, 3, 6), (1, 4, 7), (2, 5, 8), (0, 4, 8), (2, 4, 6)]"
    by (simp add: winLines_def)
  moreover have "checkWinner board =
      Some (case find (lineWon board) winLines of
              None \<Rightarrow> ''''
            | Some (i, j, k) \<Rightarrow> [board ! i])"
    using same by (simp add: specCheckWinner_def)
  moreover have "checkWinner board = Some '''' \<longleftrightarrow> \<not> (\<exists>l \<in> set winLines. lineWon board l)"
    using same specCheckWinner_empty_iff [of board] by simp
  moreover have "checkWinner board = Some '''' \<or> checkWinner board = Some ''X'' \<or>
      checkWinner board = Some ''O''"
    using same specCheckWinner_wf [OF assms] by simp
  ultimately show ?thesis by (intro conjI)
qed

theorem checkWinner_first_won_line_witness:
  "wf_board ''OXXOXOX--'' \<and> checkWinner ''OXXOXOX--'' = Some ''X'' \<and>
   find (lineWon ''OXXOXOX--'') winLines = Some (2, 4, 6)"
proof -
  have wf: "wf_board ''OXXOXOX--''" by (simp add: wf_board_def)
  have line: "find (lineWon ''OXXOXOX--'') winLines = Some (2, 4, 6)"
    by (simp add: winLines_def lineWon_def)
  from checkWinner_first_won_line [OF wf] have
    "checkWinner ''OXXOXOX--'' =
       Some (case find (lineWon ''OXXOXOX--'') winLines of
               None \<Rightarrow> ''''
             | Some (i, j, k) \<Rightarrow> [''OXXOXOX--'' ! i])"
    by (elim conjE)
  with line wf show ?thesis by simp
qed

section \<open>Cells as a payload writes them\<close>

lemma parseDigits_snoc:
  "parseDigits a (s @ [c]) =
     (case parseDigits a s of
        SyntaxError \<Rightarrow> SyntaxError
      | RangeError \<Rightarrow> RangeError
      | Parsed m \<Rightarrow>
          if \<not> isDigit c then SyntaxError
          else if 10 * m + (of_char c - 48) > 2 ^ 64 - 1 then RangeError
          else Parsed (10 * m + (of_char c - 48)))"
  by (induction s arbitrary: a) (simp_all add: Let_def)

lemma isDigit_digitChar: "d < 10 \<Longrightarrow> isDigit (digitChar d)"
  by (simp add: isDigit_def digitChar_def)

lemma digitChar_value: "d < 10 \<Longrightarrow> (of_char (digitChar d) :: nat) - 48 = d"
  by (simp add: digitChar_def)

lemma decimal_small: "n < 10 \<Longrightarrow> decimal n = [digitChar n]"
  by (simp add: decimal.simps)

lemma decimal_large:
  "\<not> n < 10 \<Longrightarrow> decimal n = decimal (n div 10) @ [digitChar (n mod 10)]"
  by (subst decimal.simps) simp

lemma decimal_head: "decimal n \<noteq> [] \<and> isDigit (hd (decimal n))"
proof (induction n rule: decimal.induct)
  case (1 n)
  show ?case
  proof (cases "n < 10")
    case True
    then show ?thesis by (simp add: decimal_small isDigit_digitChar)
  next
    case False
    with "1.IH" have "decimal (n div 10) \<noteq> [] \<and> isDigit (hd (decimal (n div 10)))" by simp
    with False show ?thesis by (simp add: decimal_large)
  qed
qed

lemma parseDigits_decimal:
  "parseDigits 0 (decimal n) = (if n > 2 ^ 64 - 1 then RangeError else Parsed n)"
proof (induction n rule: decimal.induct)
  case (1 n)
  show ?case
  proof (cases "n < 10")
    case True
    then show ?thesis
      by (simp add: decimal_small isDigit_digitChar digitChar_value Let_def)
  next
    case False
    have digit: "n mod 10 < 10" by simp
    from False "1.IH" have
      "parseDigits 0 (decimal (n div 10)) =
         (if n div 10 > 2 ^ 64 - 1 then RangeError else Parsed (n div 10))"
      by simp
    moreover have "10 * (n div 10) + n mod 10 = n" by simp
    moreover have "n div 10 > 2 ^ 64 - 1 \<Longrightarrow> n > 2 ^ 64 - 1" by simp
    ultimately show ?thesis
      using False
      by (simp add: decimal_large parseDigits_snoc isDigit_digitChar [OF digit]
          digitChar_value [OF digit])
  qed
qed

lemma sign_not_digit: "\<not> isDigit (CHR ''-'')" "\<not> isDigit (CHR ''+'')"
  by (simp_all add: isDigit_def)

lemma Atoi_decimal:
  "Atoi (decimal n) = (if n \<ge> 2 ^ 63 then 2 ^ 63 - 1 else int n)"
proof -
  from decimal_head [of n] sign_not_digit
  have "decimal n \<noteq> []" "hd (decimal n) \<noteq> CHR ''-''" "hd (decimal n) \<noteq> CHR ''+''"
    by auto
  then show ?thesis
    by (simp add: Atoi_def parseDigits_decimal)
qed

lemma Atoi_minus_decimal:
  "Atoi (CHR ''-'' # decimal n) = (if n > 2 ^ 63 then - (2 ^ 63) else - int n)"
proof -
  from decimal_head [of n] have "decimal n \<noteq> []" by simp
  then show ?thesis
    by (simp add: Atoi_def parseDigits_decimal)
qed

lemma cellIndex_number: "c \<le> 8 \<Longrightarrow> cellIndex (JNum (of_nat c)) = Inr (int c)"
  by (simp add: cellIndex_def int_of_float64_def)

lemma cellIndex_digits: "c \<le> 8 \<Longrightarrow> cellIndex (JStr (decimal c)) = Inr (int c)"
  by (simp add: cellIndex_def Atoi_decimal)

section \<open>One move on a stored game\<close>

lemma wf_board_update:
  assumes "wf_board board" and "t = CHR ''X'' \<or> t = CHR ''O''"
  shows "wf_board (board[c := t])"
proof -
  have "set (board[c := t]) \<subseteq> insert t (set board)" by (rule set_update_subset_insert)
  with assms show ?thesis by (auto simp add: wf_board_def list_all_iff)
qed

lemma wf_game_turn:
  "wf_game game \<Longrightarrow>
   Turn game = [hd (Turn game)] \<and> (hd (Turn game) = CHR ''X'' \<or> hd (Turn game) = CHR ''O'')"
  by (auto simp add: wf_game_def)

lemma makeMoveRPC_decoded:
  assumes "inp ''game_id'' = Some gidRaw" and "inp ''cell'' = Some cellF"
    and "cellIndex cellF = Inr (int c)" and "c \<le> 8"
    and "games (sprintf_v other gidRaw) = Some game" and "wf_game game"
  shows "makeMoveRPC other (Some inp) games =
           (if Winner game \<noteq> '''' then (Inl GameAlreadyFinished, games)
            else if Board game ! c \<noteq> CHR ''-'' then (Inl CellAlreadyOccupied, games)
            else (Inr (MoveResp (specApplyMove game c) (Board (specApplyMove game c))
                         (Turn (specApplyMove game c)) (Winner (specApplyMove game c))),
                  games(sprintf_v other gidRaw \<mapsto> specApplyMove game c)))"
proof -
  obtain t where turn: "Turn game = [t]" and t: "t = CHR ''X'' \<or> t = CHR ''O''"
    using wf_game_turn [OF assms(6)] by blast
  from assms(6) have board: "wf_board (Board game)" by (simp add: wf_game_def)
  then have len: "length (Board game) = 9" by (simp add: wf_board_def)
  let ?b = "(Board game)[c := t]"
  from board t have "wf_board ?b" by (rule wf_board_update)
  then have win: "checkWinner ?b = Some (specCheckWinner ?b)" by (rule checkWinner_wf)
  have won: "specCheckWinner ?b \<noteq> '''' \<longleftrightarrow> (\<exists>l \<in> set winLines. lineWon ?b l)"
    using specCheckWinner_empty_iff [of ?b] by simp
  show ?thesis
  proof (cases "Winner game \<noteq> '''' \<or> Board game ! c \<noteq> CHR ''-''")
    case True
    with assms(1-5) len show ?thesis
      by (auto simp add: makeMoveRPC_def)
  next
    case False
    with assms(1-5) len turn win won show ?thesis
      by (simp add: makeMoveRPC_def specApplyMove_def otherMark_def Let_def)
  qed
qed

lemma specApplyMove_winner_mark:
  assumes "wf_game game" and "\<exists>l \<in> set winLines. lineWon ((Board game)[c := hd (Turn game)]) l"
  shows "Winner (specApplyMove game c) = ''X'' \<or> Winner (specApplyMove game c) = ''O''"
proof -
  let ?b = "(Board game)[c := hd (Turn game)]"
  from assms(1) have "wf_board (Board game)" by (simp add: wf_game_def)
  with wf_game_turn [OF assms(1)] have "wf_board ?b" by (simp add: wf_board_update)
  then have "specCheckWinner ?b = '''' \<or> specCheckWinner ?b = ''X'' \<or> specCheckWinner ?b = ''O''"
    by (rule specCheckWinner_wf)
  moreover from assms(2) have "specCheckWinner ?b \<noteq> ''''" by (simp add: specCheckWinner_empty_iff)
  moreover from assms(2) have "Winner (specApplyMove game c) = specCheckWinner ?b"
    by (simp add: specApplyMove_def Let_def)
  ultimately show ?thesis by simp
qed

text \<open>
  C1. For a stored game that is not terminal and a move whose cell is the number \<open>c\<close>, or
  the string of the decimal digits of \<open>c\<close>, with \<open>c\<close> in \<open>[0,8]\<close> the index of an empty
  cell, \<open>makeMoveRPC\<close> succeeds and stores and returns the game \<open>specApplyMove game c\<close>: the mark of the turn is written into cell \<open>c\<close>; then, in this
  order, if one of the eight lines is won the winner is the mark of the first such line
  and the turn stays; otherwise, if no cell is empty, the winner is draw and the turn
  stays; otherwise the winner stays empty and the turn passes to the other mark. In
  particular a move that wins and fills the last empty cell gives the winner \<open>X\<close> or
  \<open>O\<close>, not draw.
\<close>

theorem makeMove_writes_then_evaluates:
  assumes "games gid = Some game" and "wf_game game" and "Winner game = ''''"
    and "inp ''game_id'' = Some gidRaw" and "sprintf_v other gidRaw = gid"
    and "inp ''cell'' = Some cellF"
    and "cellF = JNum (of_nat c) \<or> cellF = JStr (decimal c)" and "c \<le> 8"
    and "Board game ! c = CHR ''-''"
  shows "makeMoveRPC other (Some inp) games =
           (Inr (MoveResp (specApplyMove game c) (Board (specApplyMove game c))
                   (Turn (specApplyMove game c)) (Winner (specApplyMove game c))),
            games(gid \<mapsto> specApplyMove game c)) \<and>
         ID (specApplyMove game c) = ID game \<and>
         Board (specApplyMove game c) = (Board game)[c := hd (Turn game)] \<and>
         Board (specApplyMove game c) ! c = hd (Turn game) \<and>
         Turn game = [hd (Turn game)] \<and>
         (if \<exists>l \<in> set winLines. lineWon (Board (specApplyMove game c)) l
          then Winner (specApplyMove game c) = specCheckWinner (Board (specApplyMove game c)) \<and>
               (Winner (specApplyMove game c) = ''X'' \<or> Winner (specApplyMove game c) = ''O'') \<and>
               Winner (specApplyMove game c) \<noteq> ''draw'' \<and>
               Turn (specApplyMove game c) = Turn game
          else if CHR ''-'' \<notin> set (Board (specApplyMove game c))
          then Winner (specApplyMove game c) = ''draw'' \<and> Turn (specApplyMove game c) = Turn game
          else Winner (specApplyMove game c) = '''' \<and>
               Turn (specApplyMove game c) = (if Turn game = ''X'' then ''O'' else ''X''))"
proof -
  let ?b = "(Board game)[c := hd (Turn game)]"
  have board: "Board (specApplyMove game c) = ?b"
    by (simp add: specApplyMove_def Let_def)
  from assms(2) have "length (Board game) = 9" by (simp add: wf_game_def wf_board_def)
  with assms(8) have cell: "?b ! c = hd (Turn game)" by simp
  from assms(7,8) have idx: "cellIndex cellF = Inr (int c)"
    by (auto simp add: cellIndex_number cellIndex_digits)
  have result: "makeMoveRPC other (Some inp) games =
          (Inr (MoveResp (specApplyMove game c) (Board (specApplyMove game c))
                  (Turn (specApplyMove game c)) (Winner (specApplyMove game c))),
           games(gid \<mapsto> specApplyMove game c))"
    using makeMoveRPC_decoded
      [where other = other and games = games and game = game,
       OF assms(4) assms(6) idx assms(8)]
      assms(1,2,3,5,9) by simp
  have ident: "ID (specApplyMove game c) = ID game"
    by (simp add: specApplyMove_def Let_def)
  have written: "Board (specApplyMove game c) ! c = hd (Turn game)"
    unfolding board by (rule cell)
  have turn: "Turn game = [hd (Turn game)]"
    using wf_game_turn [OF assms(2)] by simp
  have evaluated:
    "if \<exists>l \<in> set winLines. lineWon (Board (specApplyMove game c)) l
     then Winner (specApplyMove game c) = specCheckWinner (Board (specApplyMove game c)) \<and>
          (Winner (specApplyMove game c) = ''X'' \<or> Winner (specApplyMove game c) = ''O'') \<and>
          Winner (specApplyMove game c) \<noteq> ''draw'' \<and>
          Turn (specApplyMove game c) = Turn game
     else if CHR ''-'' \<notin> set (Board (specApplyMove game c))
     then Winner (specApplyMove game c) = ''draw'' \<and> Turn (specApplyMove game c) = Turn game
     else Winner (specApplyMove game c) = '''' \<and>
          Turn (specApplyMove game c) = (if Turn game = ''X'' then ''O'' else ''X'')"
    unfolding board
  proof (cases "\<exists>l \<in> set winLines. lineWon ?b l")
    case True
    from specApplyMove_winner_mark [OF assms(2) True]
    have mark: "Winner (specApplyMove game c) = ''X'' \<or> Winner (specApplyMove game c) = ''O''" .
    then have nodraw: "Winner (specApplyMove game c) \<noteq> ''draw''" by auto
    from True have first: "Winner (specApplyMove game c) = specCheckWinner ?b"
      by (simp add: specApplyMove_def Let_def)
    from True have stays: "Turn (specApplyMove game c) = Turn game"
      by (simp add: specApplyMove_def Let_def)
    from True first mark nodraw stays show
      "if \<exists>l \<in> set winLines. lineWon ?b l
       then Winner (specApplyMove game c) = specCheckWinner ?b \<and>
            (Winner (specApplyMove game c) = ''X'' \<or> Winner (specApplyMove game c) = ''O'') \<and>
            Winner (specApplyMove game c) \<noteq> ''draw'' \<and>
            Turn (specApplyMove game c) = Turn game
       else if CHR ''-'' \<notin> set ?b
       then Winner (specApplyMove game c) = ''draw'' \<and> Turn (specApplyMove game c) = Turn game
       else Winner (specApplyMove game c) = '''' \<and>
            Turn (specApplyMove game c) = (if Turn game = ''X'' then ''O'' else ''X'')"
      by (simp only: if_True simp_thms)
  next
    case False
    with assms(3) show
      "if \<exists>l \<in> set winLines. lineWon ?b l
       then Winner (specApplyMove game c) = specCheckWinner ?b \<and>
            (Winner (specApplyMove game c) = ''X'' \<or> Winner (specApplyMove game c) = ''O'') \<and>
            Winner (specApplyMove game c) \<noteq> ''draw'' \<and>
            Turn (specApplyMove game c) = Turn game
       else if CHR ''-'' \<notin> set ?b
       then Winner (specApplyMove game c) = ''draw'' \<and> Turn (specApplyMove game c) = Turn game
       else Winner (specApplyMove game c) = '''' \<and>
            Turn (specApplyMove game c) = (if Turn game = ''X'' then ''O'' else ''X'')"
      by (simp add: specApplyMove_def Let_def otherMark_def)
  qed
  from result ident board written turn evaluated show ?thesis by (intro conjI)
qed

theorem makeMove_writes_then_evaluates_witness:
  "wf_game \<lparr>ID = ''g-1'', Board = ''XOXOXOOX-'', Turn = ''X'', Winner = ''''\<rparr> \<and>
   cellIndex (JNum 8) = Inr (int 8) \<and>
   makeMoveRPC (\<lambda>x. '''') (Some [''game_id'' \<mapsto> JStr ''g-1'', ''cell'' \<mapsto> JNum 8])
       [''g-1'' \<mapsto> \<lparr>ID = ''g-1'', Board = ''XOXOXOOX-'', Turn = ''X'', Winner = ''''\<rparr>] =
     (Inr (MoveResp \<lparr>ID = ''g-1'', Board = ''XOXOXOOXX'', Turn = ''X'', Winner = ''X''\<rparr>
             ''XOXOXOOXX'' ''X'' ''X''),
      [''g-1'' \<mapsto> \<lparr>ID = ''g-1'', Board = ''XOXOXOOXX'', Turn = ''X'', Winner = ''X''\<rparr>])"
proof -
  let ?g = "\<lparr>ID = ''g-1'', Board = ''XOXOXOOX-'', Turn = ''X'', Winner = ''''\<rparr>"
  let ?inp = "[''game_id'' \<mapsto> JStr ''g-1'', ''cell'' \<mapsto> JNum 8]"
  have wf: "wf_game ?g" by (simp add: wf_game_def wf_board_def)
  have idx: "cellIndex (JNum 8) = Inr (int 8)" by (simp add: cellIndex_def int_of_float64_def)
  have after: "specApplyMove ?g 8 = \<lparr>ID = ''g-1'', Board = ''XOXOXOOXX'', Turn = ''X'', Winner = ''X''\<rparr>"
    by (simp add: specApplyMove_def winLines_def lineWon_def specCheckWinner_def)
  have "makeMoveRPC (\<lambda>x. '''') (Some ?inp) [''g-1'' \<mapsto> ?g] =
          (Inr (MoveResp (specApplyMove ?g 8) (Board (specApplyMove ?g 8))
                  (Turn (specApplyMove ?g 8)) (Winner (specApplyMove ?g 8))),
           [''g-1'' \<mapsto> ?g](''g-1'' \<mapsto> specApplyMove ?g 8))"
    using makeMove_writes_then_evaluates
      [where games = "[''g-1'' \<mapsto> ?g]" and gid = "''g-1''" and game = ?g and inp = ?inp
         and gidRaw = "JStr ''g-1''" and other = "\<lambda>x. ''''" and cellF = "JNum 8" and c = 8]
      wf idx
    by (simp add: sprintf_v_def)
  with wf idx after show ?thesis by simp
qed

section \<open>Every call of \<open>makeMoveRPC\<close> on a well-formed store\<close>

lemma makeMoveRPC_early:
  "makeMoveRPC other None games = (Inl InvalidPayloadJSON, games)"
  "inp ''game_id'' = None \<Longrightarrow> makeMoveRPC other (Some inp) games = (Inl MissingGameId, games)"
  "inp ''game_id'' = Some gidRaw \<Longrightarrow> inp ''cell'' = None \<Longrightarrow>
     makeMoveRPC other (Some inp) games = (Inl MissingCell, games)"
  "inp ''game_id'' = Some gidRaw \<Longrightarrow> inp ''cell'' = Some cellF \<Longrightarrow> cellIndex cellF = Inl e \<Longrightarrow>
     makeMoveRPC other (Some inp) games = (Inl e, games)"
  "inp ''game_id'' = Some gidRaw \<Longrightarrow> inp ''cell'' = Some cellF \<Longrightarrow> cellIndex cellF = Inr cell \<Longrightarrow>
     cell < 0 \<or> cell > 8 \<Longrightarrow>
     makeMoveRPC other (Some inp) games = (Inl CellIndexOutOfRange, games)"
  "inp ''game_id'' = Some gidRaw \<Longrightarrow> inp ''cell'' = Some cellF \<Longrightarrow> cellIndex cellF = Inr cell \<Longrightarrow>
     0 \<le> cell \<Longrightarrow> cell \<le> 8 \<Longrightarrow> games (sprintf_v other gidRaw) = None \<Longrightarrow>
     makeMoveRPC other (Some inp) games = (Inl GameNotFound, games)"
  by (simp_all add: makeMoveRPC_def)

lemma makeMoveRPC_cases:
  assumes "wf_store games"
  shows "(\<exists>e. makeMoveRPC other payload games = (Inl e, games)) \<or>
         (\<exists>gid game c. games gid = Some game \<and> Winner game = '''' \<and> c \<le> 8 \<and>
            Board game ! c = CHR ''-'' \<and>
            makeMoveRPC other payload games =
              (Inr (MoveResp (specApplyMove game c) (Board (specApplyMove game c))
                      (Turn (specApplyMove game c)) (Winner (specApplyMove game c))),
               games(gid \<mapsto> specApplyMove game c)))"
proof (cases payload)
  case None
  then show ?thesis by (simp add: makeMoveRPC_early)
next
  case (Some inp)
  show ?thesis
  proof (cases "inp ''game_id''")
    case None
    with Some show ?thesis by (simp add: makeMoveRPC_early)
  next
    case gid: (Some gidRaw)
    show ?thesis
    proof (cases "inp ''cell''")
      case None
      with Some gid show ?thesis by (simp add: makeMoveRPC_early)
    next
      case cell: (Some cellF)
      show ?thesis
      proof (cases "cellIndex cellF")
        case (Inl e)
        with Some gid cell show ?thesis by (simp add: makeMoveRPC_early)
      next
        case (Inr n)
        show ?thesis
        proof (cases "n < 0 \<or> n > 8")
          case True
          with Some gid cell Inr show ?thesis by (simp add: makeMoveRPC_early)
        next
          case False
          then have range: "0 \<le> n" "n \<le> 8" by simp_all
          show ?thesis
          proof (cases "games (sprintf_v other gidRaw)")
            case None
            with Some gid cell Inr range show ?thesis by (simp add: makeMoveRPC_early)
          next
            case game: (Some game)
            with assms have wf: "wf_game game" by (simp add: wf_store_def)
            from range Inr have idx: "cellIndex cellF = Inr (int (nat n))" and le: "nat n \<le> 8"
              by simp_all
            note step = makeMoveRPC_decoded
              [where other = other and games = games and game = game and c = "nat n",
               OF gid cell idx le game wf]
            show ?thesis
            proof (cases "Winner game \<noteq> '''' \<or> Board game ! nat n \<noteq> CHR ''-''")
              case True
              with step Some show ?thesis by auto
            next
              case False
              with step Some have
                "games (sprintf_v other gidRaw) = Some game \<and> Winner game = '''' \<and> nat n \<le> 8 \<and>
                 Board game ! nat n = CHR ''-'' \<and>
                 makeMoveRPC other payload games =
                   (Inr (MoveResp (specApplyMove game (nat n)) (Board (specApplyMove game (nat n)))
                           (Turn (specApplyMove game (nat n))) (Winner (specApplyMove game (nat n)))),
                    games(sprintf_v other gidRaw \<mapsto> specApplyMove game (nat n)))"
                using game le by simp
              then show ?thesis by blast
            qed
          qed
        qed
      qed
    qed
  qed
qed

lemma wf_game_specApplyMove:
  assumes "wf_game game" and "Winner game = ''''"
  shows "wf_game (specApplyMove game c)"
proof -
  let ?b = "(Board game)[c := hd (Turn game)]"
  from assms(1) have "wf_board (Board game)" by (simp add: wf_game_def)
  with wf_game_turn [OF assms(1)] have board: "wf_board ?b" by (simp add: wf_board_update)
  from assms(1) have turn: "Turn game = ''X'' \<or> Turn game = ''O''" by (simp add: wf_game_def)
  show ?thesis
  proof (cases "\<exists>l \<in> set winLines. lineWon ?b l")
    case True
    from specApplyMove_winner_mark [OF assms(1) True]
    have "Winner (specApplyMove game c) = ''X'' \<or> Winner (specApplyMove game c) = ''O''" .
    moreover from True have "Board (specApplyMove game c) = ?b" "Turn (specApplyMove game c) = Turn game"
      by (simp_all add: specApplyMove_def Let_def)
    ultimately show ?thesis using board turn by (auto simp add: wf_game_def)
  next
    case False
    with board turn assms(2) show ?thesis
      by (auto simp add: wf_game_def specApplyMove_def Let_def otherMark_def)
  qed
qed

lemma wf_store_makeMoveRPC:
  assumes "wf_store games"
  shows "wf_store (snd (makeMoveRPC other payload games))"
proof -
  from makeMoveRPC_cases [OF assms, of other payload] show ?thesis
  proof (elim disjE exE conjE)
    fix e
    assume "makeMoveRPC other payload games = (Inl e, games)"
    with assms show ?thesis by simp
  next
    fix gid game c
    assume game: "games gid = Some game" and open_game: "Winner game = ''''"
      and result: "makeMoveRPC other payload games =
        (Inr (MoveResp (specApplyMove game c) (Board (specApplyMove game c))
                (Turn (specApplyMove game c)) (Winner (specApplyMove game c))),
         games(gid \<mapsto> specApplyMove game c))"
    from assms game have "wf_game game" by (simp add: wf_store_def)
    then have "wf_game (specApplyMove game c)" using open_game by (rule wf_game_specApplyMove)
    with assms result show ?thesis by (simp add: wf_store_def)
  qed
qed

lemma wf_game_new:
  "wf_game \<lparr>ID = gid, Board = newBoard, Turn = ''X'', Winner = ''''\<rparr>"
  by (simp add: wf_game_def wf_board_def newBoard_def)

lemma wf_store_createGameRPC:
  "wf_store games \<Longrightarrow> wf_store (snd (createGameRPC n games))"
  using wf_game_new by (simp add: wf_store_def createGameRPC_def Let_def)

lemma reachable_wf: "reachable other games \<Longrightarrow> wf_store games"
proof (induction rule: reachable.induct)
  case start
  show ?case by (simp add: wf_store_def)
next
  case (create games n)
  then show ?case by (simp add: wf_store_createGameRPC)
next
  case (move games payload)
  then show ?case by (simp add: wf_store_makeMoveRPC)
qed

section \<open>Failing moves\<close>




section \<open>Decoding the cell\<close>

lemma int_of_float64_range:
  "(int_of_float64 q < 0 \<or> 8 < int_of_float64 q) \<longleftrightarrow> (q \<le> - 1 \<or> 9 \<le> q)"
proof (cases "0 \<le> q")
  case True
  then have nonneg: "0 \<le> \<lfloor>q\<rfloor>" by simp
  have "8 < \<lfloor>q\<rfloor> \<longleftrightarrow> 9 \<le> q"
    using le_floor_iff [of 9 q] by simp
  with True nonneg show ?thesis
    by (auto simp add: int_of_float64_def Let_def)
next
  case False
  then have neg: "\<lceil>q\<rceil> \<le> 0" by (simp add: ceiling_le_iff)
  have "\<lceil>q\<rceil> < 0 \<longleftrightarrow> q \<le> - 1"
    using ceiling_le_iff [of q "- 1"] by simp
  with False neg show ?thesis
    by (auto simp add: int_of_float64_def Let_def)
qed

lemma int_of_float64_inside:
  assumes "- 1 < q" and "q < 9"
  shows "int_of_float64 q = (if 0 \<le> q then \<lfloor>q\<rfloor> else \<lceil>q\<rceil>) \<and>
         0 \<le> (if 0 \<le> q then \<lfloor>q\<rfloor> else \<lceil>q\<rceil>) \<and> (if 0 \<le> q then \<lfloor>q\<rfloor> else \<lceil>q\<rceil>) \<le> 8"
proof (cases "0 \<le> q")
  case True
  then have low: "0 \<le> \<lfloor>q\<rfloor>" by simp
  from assms(2) have "\<lfloor>q\<rfloor> < 9" using floor_less_iff [of q 9] by simp
  then have high: "\<lfloor>q\<rfloor> \<le> 8" by simp
  with True low show ?thesis by (simp add: int_of_float64_def Let_def)
next
  case False
  with assms(1) have "\<lceil>q\<rceil> = 0" by (simp add: ceiling_eq_iff)
  with False show ?thesis by (simp add: int_of_float64_def Let_def)
qed

lemma makeMoveRPC_index_accepted:
  assumes "inp ''game_id'' = Some gidRaw" and "inp ''cell'' = Some cellF"
    and "cellIndex cellF = Inr n" and "0 \<le> n" and "n \<le> 8"
  shows "fst (makeMoveRPC other (Some inp) games) = Inl e \<Longrightarrow> \<not> isInvalidIndex e"
  using assms
  by (auto simp add: makeMoveRPC_def isInvalidIndex_def Let_def
      split: option.splits list.splits if_splits)

text \<open>
  C4, as the code has it. The cell of a payload with a game identifier is taken as
  \<open>json.Unmarshal\<close> decodes it. A decoded number \<open>q\<close> with \<open>q \<le> -1\<close> or \<open>q \<ge> 9\<close>, the
  string of the decimal digits of a number from 9 on, and the string of a minus sign and
  the decimal digits of a number from 1 on, fail with \<open>cell index out of range\<close>; a cell
  that is neither a number nor a string (null, a boolean, an array, an object) fails with
  \<open>invalid cell index\<close>; the store is unchanged in each case. A decoded number \<open>q\<close>
  strictly between \<open>-1\<close> and \<open>9\<close> is cut towards zero to the index \<open>t\<close>, which lies in
  \<open>[0,8]\<close>: the call is not answered with one of the two index errors, and on a game
  without winner whose cell \<open>t\<close> is empty the move is made in cell \<open>t\<close>.
\<close>

theorem bad_cell_is_rejected:
  assumes "inp ''game_id'' = Some gidRaw" and "inp ''cell'' = Some cellF"
  shows "(\<forall>q. cellF = JNum q \<and> (q \<le> - 1 \<or> 9 \<le> q) \<longrightarrow>
            makeMoveRPC other (Some inp) games = (Inl CellIndexOutOfRange, games)) \<and>
         (\<forall>q t. cellF = JNum q \<and> - 1 < q \<and> q < 9 \<and> t = (if 0 \<le> q then \<lfloor>q\<rfloor> else \<lceil>q\<rceil>) \<longrightarrow>
            0 \<le> t \<and> t \<le> 8 \<and> cellIndex cellF = Inr t \<and>
            (\<forall>e. fst (makeMoveRPC other (Some inp) games) = Inl e \<longrightarrow> \<not> isInvalidIndex e) \<and>
            (\<forall>game. games (sprintf_v other gidRaw) = Some game \<and> wf_game game \<and>
               Winner game = '''' \<and> Board game ! nat t = CHR ''-'' \<longrightarrow>
               makeMoveRPC other (Some inp) games =
                 (Inr (MoveResp (specApplyMove game (nat t)) (Board (specApplyMove game (nat t)))
                         (Turn (specApplyMove game (nat t))) (Winner (specApplyMove game (nat t)))),
                  games(sprintf_v other gidRaw \<mapsto> specApplyMove game (nat t))) \<and>
               Board (specApplyMove game (nat t)) = (Board game)[nat t := hd (Turn game)])) \<and>
         (\<forall>n. cellF = JStr (decimal n) \<and> 9 \<le> n \<longrightarrow>
            makeMoveRPC other (Some inp) games = (Inl CellIndexOutOfRange, games)) \<and>
         (\<forall>n. cellF = JStr (CHR ''-'' # decimal n) \<and> 1 \<le> n \<longrightarrow>
            makeMoveRPC other (Some inp) games = (Inl CellIndexOutOfRange, games)) \<and>
         ((\<forall>q. cellF \<noteq> JNum q) \<and> (\<forall>s. cellF \<noteq> JStr s) \<longrightarrow>
            makeMoveRPC other (Some inp) games = (Inl InvalidCellIndex, games)) \<and>
         isInvalidIndex CellIndexOutOfRange \<and> isInvalidIndex InvalidCellIndex"
proof (intro conjI allI impI)
  fix q
  assume "cellF = JNum q \<and> (q \<le> - 1 \<or> 9 \<le> q)"
  then have "cellIndex cellF = Inr (int_of_float64 q)"
    and "int_of_float64 q < 0 \<or> 8 < int_of_float64 q"
    by (simp_all add: cellIndex_def int_of_float64_range)
  with assms show "makeMoveRPC other (Some inp) games = (Inl CellIndexOutOfRange, games)"
    by (simp add: makeMoveRPC_early)
next
  fix q t
  assume h: "cellF = JNum q \<and> - 1 < q \<and> q < 9 \<and> t = (if 0 \<le> q then \<lfloor>q\<rfloor> else \<lceil>q\<rceil>)"
  then have inside: "- 1 < q" "q < 9" by simp_all
  from h int_of_float64_inside [OF inside] have t: "int_of_float64 q = t" by simp
  from h int_of_float64_inside [OF inside] show lower: "0 \<le> t" by simp
  from h int_of_float64_inside [OF inside] show upper: "t \<le> 8" by simp
  from h t show idx: "cellIndex cellF = Inr t" by (simp add: cellIndex_def)
  {
    fix e
    assume "fst (makeMoveRPC other (Some inp) games) = Inl e"
    with makeMoveRPC_index_accepted [OF assms idx lower upper]
    show "\<not> isInvalidIndex e" by blast
  }
  from lower upper idx have nat_idx: "cellIndex cellF = Inr (int (nat t))" and le: "nat t \<le> 8"
    by simp_all
  fix game
  assume g: "games (sprintf_v other gidRaw) = Some game \<and> wf_game game \<and>
    Winner game = '''' \<and> Board game ! nat t = CHR ''-''"
  then have stored: "games (sprintf_v other gidRaw) = Some game" and wf: "wf_game game"
    by simp_all
  from makeMoveRPC_decoded
    [where other = other and games = games and game = game and c = "nat t",
     OF assms nat_idx le stored wf] g
  show "makeMoveRPC other (Some inp) games =
      (Inr (MoveResp (specApplyMove game (nat t)) (Board (specApplyMove game (nat t)))
              (Turn (specApplyMove game (nat t))) (Winner (specApplyMove game (nat t)))),
       games(sprintf_v other gidRaw \<mapsto> specApplyMove game (nat t)))"
    by simp
  show "Board (specApplyMove game (nat t)) = (Board game)[nat t := hd (Turn game)]"
    by (simp add: specApplyMove_def Let_def)
next
  fix n
  assume "cellF = JStr (decimal n) \<and> 9 \<le> n"
  then have "cellIndex cellF = Inr (Atoi (decimal n))" and "8 < Atoi (decimal n)"
    by (simp_all add: cellIndex_def Atoi_decimal)
  with assms show "makeMoveRPC other (Some inp) games = (Inl CellIndexOutOfRange, games)"
    by (simp add: makeMoveRPC_early)
next
  fix n
  assume "cellF = JStr (CHR ''-'' # decimal n) \<and> 1 \<le> n"
  then have "cellIndex cellF = Inr (Atoi (CHR ''-'' # decimal n))"
    and "Atoi (CHR ''-'' # decimal n) < 0"
    by (simp_all add: cellIndex_def Atoi_minus_decimal)
  with assms show "makeMoveRPC other (Some inp) games = (Inl CellIndexOutOfRange, games)"
    by (simp add: makeMoveRPC_early)
next
  assume "(\<forall>q. cellF \<noteq> JNum q) \<and> (\<forall>s. cellF \<noteq> JStr s)"
  then have "cellIndex cellF = Inl InvalidCellIndex"
    by (cases cellF) (simp_all add: cellIndex_def)
  with assms show "makeMoveRPC other (Some inp) games = (Inl InvalidCellIndex, games)"
    by (simp add: makeMoveRPC_early)
next
  show "isInvalidIndex CellIndexOutOfRange" by (simp add: isInvalidIndex_def)
next
  show "isInvalidIndex InvalidCellIndex" by (simp add: isInvalidIndex_def)
qed

theorem bad_cell_is_rejected_witness:
  "makeMoveRPC (\<lambda>x. '''') (Some [''game_id'' \<mapsto> JStr ''g-1'', ''cell'' \<mapsto> JBool True])
       [''g-1'' \<mapsto> \<lparr>ID = ''g-1'', Board = ''---------'', Turn = ''X'', Winner = ''''\<rparr>] =
     (Inl InvalidCellIndex,
      [''g-1'' \<mapsto> \<lparr>ID = ''g-1'', Board = ''---------'', Turn = ''X'', Winner = ''''\<rparr>]) \<and>
   makeMoveRPC (\<lambda>x. '''') (Some [''game_id'' \<mapsto> JStr ''g-1'', ''cell'' \<mapsto> JStr ''12''])
       [''g-1'' \<mapsto> \<lparr>ID = ''g-1'', Board = ''---------'', Turn = ''X'', Winner = ''''\<rparr>] =
     (Inl CellIndexOutOfRange,
      [''g-1'' \<mapsto> \<lparr>ID = ''g-1'', Board = ''---------'', Turn = ''X'', Winner = ''''\<rparr>]) \<and>
   cellIndex (JNum (7 / 2)) = Inr 3"
proof -
  let ?games = "[''g-1'' \<mapsto> \<lparr>ID = ''g-1'', Board = ''---------'', Turn = ''X'', Winner = ''''\<rparr>]"
  let ?bool = "[''game_id'' \<mapsto> JStr ''g-1'', ''cell'' \<mapsto> JBool True]"
  let ?digits = "[''game_id'' \<mapsto> JStr ''g-1'', ''cell'' \<mapsto> JStr ''12'']"
  let ?half = "[''game_id'' \<mapsto> JStr ''g-1'', ''cell'' \<mapsto> JNum (7 / 2)]"
  have bool_gid: "?bool ''game_id'' = Some (JStr ''g-1'')" by simp
  have bool_cell: "?bool ''cell'' = Some (JBool True)" by simp
  have other: "(\<forall>q. JBool True \<noteq> JNum q) \<and> (\<forall>s. JBool True \<noteq> JStr s)" by simp
  from bad_cell_is_rejected
    [where other = "\<lambda>x. ''''" and games = ?games, OF bool_gid bool_cell]
  have "(\<forall>q. JBool True \<noteq> JNum q) \<and> (\<forall>s. JBool True \<noteq> JStr s) \<longrightarrow>
      makeMoveRPC (\<lambda>x. '''') (Some ?bool) ?games = (Inl InvalidCellIndex, ?games)"
    by (elim conjE)
  with other have first: "makeMoveRPC (\<lambda>x. '''') (Some ?bool) ?games = (Inl InvalidCellIndex, ?games)"
    by (rule rev_mp)
  have digits_gid: "?digits ''game_id'' = Some (JStr ''g-1'')" by simp
  have digits_cell: "?digits ''cell'' = Some (JStr ''12'')" by simp
  have digits: "decimal 12 = ''12''"
    by (simp add: decimal.simps digitChar_def char_of_eq_iff)
  have twelve: "JStr ''12'' = JStr (decimal 12) \<and> 9 \<le> (12 :: nat)"
    by (simp add: digits)
  from bad_cell_is_rejected
    [where other = "\<lambda>x. ''''" and games = ?games, OF digits_gid digits_cell]
  have "\<forall>n. JStr ''12'' = JStr (decimal n) \<and> 9 \<le> n \<longrightarrow>
      makeMoveRPC (\<lambda>x. '''') (Some ?digits) ?games = (Inl CellIndexOutOfRange, ?games)"
    by (elim conjE)
  with twelve have second:
    "makeMoveRPC (\<lambda>x. '''') (Some ?digits) ?games = (Inl CellIndexOutOfRange, ?games)"
    by blast
  have half_gid: "?half ''game_id'' = Some (JStr ''g-1'')" by simp
  have half_cell: "?half ''cell'' = Some (JNum (7 / 2))" by simp
  have cut: "JNum (7 / 2) = JNum (7 / 2) \<and> - 1 < (7 / 2 :: rat) \<and> (7 / 2 :: rat) < 9 \<and>
      (3 :: int) = (if 0 \<le> (7 / 2 :: rat) then \<lfloor>7 / 2 :: rat\<rfloor> else \<lceil>7 / 2 :: rat\<rceil>)"
    by (simp add: floor_eq_iff eq_commute [of "3 :: int"])
  from bad_cell_is_rejected
    [where other = "\<lambda>x. ''''" and games = ?games, OF half_gid half_cell]
  have "\<forall>q t. JNum (7 / 2) = JNum q \<and> - 1 < q \<and> q < 9 \<and>
        t = (if 0 \<le> q then \<lfloor>q\<rfloor> else \<lceil>q\<rceil>) \<longrightarrow>
      0 \<le> t \<and> t \<le> 8 \<and> cellIndex (JNum (7 / 2)) = Inr t \<and>
      (\<forall>e. fst (makeMoveRPC (\<lambda>x. '''') (Some ?half) ?games) = Inl e \<longrightarrow> \<not> isInvalidIndex e) \<and>
      (\<forall>game. ?games (sprintf_v (\<lambda>x. '''') (JStr ''g-1'')) = Some game \<and> wf_game game \<and>
         Winner game = '''' \<and> Board game ! nat t = CHR ''-'' \<longrightarrow>
         makeMoveRPC (\<lambda>x. '''') (Some ?half) ?games =
           (Inr (MoveResp (specApplyMove game (nat t)) (Board (specApplyMove game (nat t)))
                   (Turn (specApplyMove game (nat t))) (Winner (specApplyMove game (nat t)))),
            ?games(sprintf_v (\<lambda>x. '''') (JStr ''g-1'') \<mapsto> specApplyMove game (nat t))) \<and>
         Board (specApplyMove game (nat t)) = (Board game)[nat t := hd (Turn game)])"
    by (elim conjE)
  with cut have third: "cellIndex (JNum (7 / 2)) = Inr 3" by blast
  from first second third show ?thesis by (intro conjI)
qed

text \<open>
  The claim as it is written fails for the number \<open>8.5\<close>, which is outside \<open>[0,8]\<close>: it is
  cut to the index 8 and the move is made in cell 8.
\<close>

theorem bad_cell_is_accepted_counterexample:
  "makeMoveRPC (\<lambda>x. '''') (Some [''game_id'' \<mapsto> JStr ''g-1'', ''cell'' \<mapsto> JNum (17 / 2)])
       [''g-1'' \<mapsto> \<lparr>ID = ''g-1'', Board = ''---------'', Turn = ''X'', Winner = ''''\<rparr>] =
     (Inr (MoveResp \<lparr>ID = ''g-1'', Board = ''--------X'', Turn = ''O'', Winner = ''''\<rparr>
             ''--------X'' ''O'' ''''),
      [''g-1'' \<mapsto> \<lparr>ID = ''g-1'', Board = ''--------X'', Turn = ''O'', Winner = ''''\<rparr>]) \<and>
   \<not> (0 \<le> (17 / 2 :: rat) \<and> (17 / 2 :: rat) \<le> 8)"
proof -
  have fraction: "cellIndex (JNum (17 / 2)) = Inr 8"
    by (simp add: cellIndex_def int_of_float64_def floor_eq_iff)
  show ?thesis
    by (simp add: makeMoveRPC_def fraction sprintf_v_def checkWinner_def winLines_def Let_def)
qed

text \<open>
  A string cell that is not a number is not rejected either: \<^verbatim>\<open>strconv.Atoi\<close> returns 0
  with an error, the handler drops the error (line 99), and the move is made in cell 0.
  The other kinds of cell that are not numbers are rejected by the \<^verbatim>\<open>default\<close> branch of
  the same switch.
\<close>

lemma string_cell_without_digits_is_cell_0:
  "makeMoveRPC (\<lambda>x. '''') (Some [''game_id'' \<mapsto> JStr ''g-1'', ''cell'' \<mapsto> JStr ''abc''])
       [''g-1'' \<mapsto> \<lparr>ID = ''g-1'', Board = ''---------'', Turn = ''X'', Winner = ''''\<rparr>] =
     (Inr (MoveResp \<lparr>ID = ''g-1'', Board = ''X--------'', Turn = ''O'', Winner = ''''\<rparr>
             ''X--------'' ''O'' ''''),
      [''g-1'' \<mapsto> \<lparr>ID = ''g-1'', Board = ''X--------'', Turn = ''O'', Winner = ''''\<rparr>])"
proof -
  have word: "cellIndex (JStr ''abc'') = Inr 0"
    by (simp add: cellIndex_def Atoi_def isDigit_def)
  show ?thesis
    by (simp add: makeMoveRPC_def word sprintf_v_def checkWinner_def winLines_def Let_def)
qed

text \<open>
  C10, as the code has it. For a payload with a game identifier and a cell that is a
  number \<open>q\<close> with \<open>q \<le> -1\<close> or \<open>q \<ge> 9\<close>, or a string that \<open>Atoi\<close> reads as an integer
  outside \<open>[0,8]\<close>, \<open>makeMoveRPC\<close> returns \<open>cell index out of range\<close> whatever the store
  holds, also when the identifier is unknown, and leaves the store as it was.
\<close>

theorem out_of_range_before_lookup:
  assumes "inp ''game_id'' = Some gidRaw" and "inp ''cell'' = Some cellF"
    and "(\<exists>q. cellF = JNum q \<and> (q \<le> - 1 \<or> 9 \<le> q)) \<or>
         (\<exists>s. cellF = JStr s \<and> (Atoi s < 0 \<or> 8 < Atoi s))"
  shows "makeMoveRPC other (Some inp) games = (Inl CellIndexOutOfRange, games) \<and>
         fst (makeMoveRPC other (Some inp) games) = fst (makeMoveRPC other (Some inp) Map.empty)"
proof -
  from assms(3) obtain n where "cellIndex cellF = Inr n" and "n < 0 \<or> n > 8"
    by (auto simp add: cellIndex_def int_of_float64_range)
  with assms(1,2) have "makeMoveRPC other (Some inp) g = (Inl CellIndexOutOfRange, g)" for g
    by (simp add: makeMoveRPC_early)
  then show ?thesis by simp
qed

theorem out_of_range_before_lookup_witness:
  "makeMoveRPC (\<lambda>x. '''') (Some [''game_id'' \<mapsto> JStr ''g-404'', ''cell'' \<mapsto> JNum 9])
       [''g-1'' \<mapsto> \<lparr>ID = ''g-1'', Board = ''---------'', Turn = ''X'', Winner = ''''\<rparr>] =
     (Inl CellIndexOutOfRange,
      [''g-1'' \<mapsto> \<lparr>ID = ''g-1'', Board = ''---------'', Turn = ''X'', Winner = ''''\<rparr>])"
proof -
  let ?inp = "[''game_id'' \<mapsto> JStr ''g-404'', ''cell'' \<mapsto> JNum 9]"
  have gid: "?inp ''game_id'' = Some (JStr ''g-404'')" by simp
  have cell: "?inp ''cell'' = Some (JNum 9)" by simp
  have bad: "(\<exists>q. JNum 9 = JNum q \<and> (q \<le> - 1 \<or> 9 \<le> q)) \<or>
      (\<exists>s. JNum 9 = JStr s \<and> (Atoi s < 0 \<or> 8 < Atoi s))"
    by simp
  from out_of_range_before_lookup
    [where other = "\<lambda>x. ''''"
       and games = "[''g-1'' \<mapsto> \<lparr>ID = ''g-1'', Board = ''---------'', Turn = ''X'', Winner = ''''\<rparr>]",
     OF gid cell bad]
  show ?thesis by (rule conjunct1)
qed

text \<open>
  The claim as it is written fails for a number outside \<open>[0,8]\<close> whose integer part is
  inside: \<open>8.5\<close> is cut to 8, the store is consulted, and the unknown identifier is
  reported.
\<close>

theorem fraction_reaches_lookup_counterexample:
  "makeMoveRPC (\<lambda>x. '''') (Some [''game_id'' \<mapsto> JStr ''g-404'', ''cell'' \<mapsto> JNum (17 / 2)])
       Map.empty = (Inl GameNotFound, Map.empty) \<and>
   \<not> (0 \<le> (17 / 2 :: rat) \<and> (17 / 2 :: rat) \<le> 8)"
proof -
  have fraction: "cellIndex (JNum (17 / 2)) = Inr 8"
    by (simp add: cellIndex_def int_of_float64_def floor_eq_iff)
  show ?thesis
    by (simp add: makeMoveRPC_def fraction sprintf_v_def)
qed

section \<open>Creating a game\<close>

lemma digitsValue_snoc:
  "digitsValue (s @ [c]) = 10 * digitsValue s + (of_char c - 48)"
  by (simp add: digitsValue_def)

lemma digitsValue_decimal: "digitsValue (decimal n) = n"
proof (induction n rule: decimal.induct)
  case (1 n)
  show ?case
  proof (cases "n < 10")
    case True
    then have "decimal n = [digitChar n]" by (simp add: decimal.simps)
    with True show ?thesis by (simp add: digitsValue_def digitChar_value)
  next
    case False
    then have unfold: "decimal n = decimal (n div 10) @ [digitChar (n mod 10)]"
      by (subst decimal.simps) simp
    from False "1.IH" have "digitsValue (decimal (n div 10)) = n div 10" by simp
    with unfold show ?thesis by (simp add: digitsValue_snoc digitChar_value)
  qed
qed

lemma genID_inject: "genID m = genID n \<longleftrightarrow> m = n"
proof
  assume "genID m = genID n"
  then have "decimal m = decimal n" by (simp add: genID_def)
  then have "digitsValue (decimal m) = digitsValue (decimal n)" by simp
  then show "m = n" by (simp add: digitsValue_decimal)
qed simp

lemma genID_example: "genID 7 = ''g-7''" "genID 123456 = ''g-123456''"
  by (simp_all add: genID_def decimal.simps digitChar_def char_of_eq_iff)

text \<open>
  C8. \<open>createGameRPC\<close> builds a game with the board \<open>---------\<close>, the turn \<open>X\<close> and no
  winner, stores it under the identifier it generated, and returns that identifier, the
  board and the turn. A \<open>getGameRPC\<close> for the identifier on the store it leaves returns
  this game.
\<close>

theorem createGame_fresh_and_visible:
  "createGameRPC n games =
     (Inr (CreateResp (genID n) ''---------'' ''X''),
      games(genID n \<mapsto> \<lparr>ID = genID n, Board = ''---------'', Turn = ''X'', Winner = ''''\<rparr>)) \<and>
   snd (createGameRPC n games) (genID n) =
     Some \<lparr>ID = genID n, Board = ''---------'', Turn = ''X'', Winner = ''''\<rparr> \<and>
   getGameRPC other (Some (inp(''game_id'' \<mapsto> JStr (genID n)))) (snd (createGameRPC n games)) =
     Inr (GetResp \<lparr>ID = genID n, Board = ''---------'', Turn = ''X'', Winner = ''''\<rparr>)"
  by (simp add: createGameRPC_def getGameRPC_def newBoard_def sprintf_v_def Let_def)

theorem createGame_fresh_and_visible_witness:
  "createGameRPC 123456 Map.empty =
     (Inr (CreateResp ''g-123456'' ''---------'' ''X''),
      [''g-123456'' \<mapsto> \<lparr>ID = ''g-123456'', Board = ''---------'', Turn = ''X'', Winner = ''''\<rparr>]) \<and>
   getGameRPC (\<lambda>x. '''') (Some [''game_id'' \<mapsto> JStr ''g-123456''])
       (snd (createGameRPC 123456 Map.empty)) =
     Inr (GetResp \<lparr>ID = ''g-123456'', Board = ''---------'', Turn = ''X'', Winner = ''''\<rparr>)"
proof -
  note fresh = createGame_fresh_and_visible
    [where n = 123456 and games = Map.empty and other = "\<lambda>x. ''''" and inp = Map.empty,
     unfolded genID_example]
  from fresh have "createGameRPC 123456 Map.empty =
     (Inr (CreateResp ''g-123456'' ''---------'' ''X''),
      [''g-123456'' \<mapsto> \<lparr>ID = ''g-123456'', Board = ''---------'', Turn = ''X'', Winner = ''''\<rparr>])"
    by (rule conjunct1)
  moreover from fresh have
    "getGameRPC (\<lambda>x. '''') (Some [''game_id'' \<mapsto> JStr ''g-123456''])
       (snd (createGameRPC 123456 Map.empty)) =
     Inr (GetResp \<lparr>ID = ''g-123456'', Board = ''---------'', Turn = ''X'', Winner = ''''\<rparr>)"
    by (elim conjE)
  ultimately show ?thesis by (intro conjI)
qed

text \<open>
  C5, as the code has it. The store is a map and holds at most one game for an identifier.
  \<open>createGameRPC\<close> stores the fresh game under \<open>g-n\<close> for the number \<open>n\<close> it drew and does
  not look whether that identifier is in use: the record of every other identifier stays
  as it was; different numbers give different identifiers; when the identifier is not in
  use, no record of the store is overwritten and the store gains exactly this
  identifier; when it is in use, its record is replaced by the fresh game.
\<close>

theorem createGame_store_update:
  "snd (createGameRPC n games) =
     games(genID n \<mapsto> \<lparr>ID = genID n, Board = ''---------'', Turn = ''X'', Winner = ''''\<rparr>) \<and>
   (\<forall>gid. gid \<noteq> genID n \<longrightarrow> snd (createGameRPC n games) gid = games gid) \<and>
   (\<forall>m. genID m = genID n \<longleftrightarrow> m = n) \<and>
   (genID n \<notin> dom games \<longrightarrow>
      (\<forall>gid \<in> dom games. snd (createGameRPC n games) gid = games gid) \<and>
      dom (snd (createGameRPC n games)) = insert (genID n) (dom games)) \<and>
   (genID n \<in> dom games \<longrightarrow>
      dom (snd (createGameRPC n games)) = dom games \<and>
      snd (createGameRPC n games) (genID n) =
        Some \<lparr>ID = genID n, Board = ''---------'', Turn = ''X'', Winner = ''''\<rparr>)"
proof -
  have store: "snd (createGameRPC n games) =
      games(genID n \<mapsto> \<lparr>ID = genID n, Board = ''---------'', Turn = ''X'', Winner = ''''\<rparr>)"
    by (simp add: createGameRPC_def newBoard_def Let_def)
  have others: "\<forall>gid. gid \<noteq> genID n \<longrightarrow> snd (createGameRPC n games) gid = games gid"
    by (simp add: store)
  have inject: "\<forall>m. genID m = genID n \<longleftrightarrow> m = n"
    by (simp add: genID_inject)
  have unused: "genID n \<notin> dom games \<longrightarrow>
      (\<forall>gid \<in> dom games. snd (createGameRPC n games) gid = games gid) \<and>
      dom (snd (createGameRPC n games)) = insert (genID n) (dom games)"
    by (auto simp add: store)
  have used: "genID n \<in> dom games \<longrightarrow>
      dom (snd (createGameRPC n games)) = dom games \<and>
      snd (createGameRPC n games) (genID n) =
        Some \<lparr>ID = genID n, Board = ''---------'', Turn = ''X'', Winner = ''''\<rparr>"
    by (auto simp add: store)
  from store others inject unused used show ?thesis by (intro conjI)
qed

theorem createGame_store_update_witness:
  "snd (createGameRPC 7
          [''g-3'' \<mapsto> \<lparr>ID = ''g-3'', Board = ''----X----'', Turn = ''O'', Winner = ''''\<rparr>]) =
     [''g-3'' \<mapsto> \<lparr>ID = ''g-3'', Board = ''----X----'', Turn = ''O'', Winner = ''''\<rparr>,
      ''g-7'' \<mapsto> \<lparr>ID = ''g-7'', Board = ''---------'', Turn = ''X'', Winner = ''''\<rparr>] \<and>
   genID 7 \<notin> dom [''g-3'' \<mapsto> \<lparr>ID = ''g-3'', Board = ''----X----'', Turn = ''O'', Winner = ''''\<rparr>]"
proof -
  note update = createGame_store_update
    [where n = 7
       and games = "[''g-3'' \<mapsto> \<lparr>ID = ''g-3'', Board = ''----X----'', Turn = ''O'', Winner = ''''\<rparr>]",
     unfolded genID_example]
  from update have "snd (createGameRPC 7
          [''g-3'' \<mapsto> \<lparr>ID = ''g-3'', Board = ''----X----'', Turn = ''O'', Winner = ''''\<rparr>]) =
     [''g-3'' \<mapsto> \<lparr>ID = ''g-3'', Board = ''----X----'', Turn = ''O'', Winner = ''''\<rparr>,
      ''g-7'' \<mapsto> \<lparr>ID = ''g-7'', Board = ''---------'', Turn = ''X'', Winner = ''''\<rparr>]"
    by (rule conjunct1)
  moreover have
    "genID 7 \<notin> dom [''g-3'' \<mapsto> \<lparr>ID = ''g-3'', Board = ''----X----'', Turn = ''O'', Winner = ''''\<rparr>]"
    by (simp add: genID_example)
  ultimately show ?thesis by (intro conjI)
qed

text \<open>
  The claim as it is written fails when the number drawn was drawn before: the game
  \<open>g-7\<close>, with a move made, is replaced by a fresh game.
\<close>

theorem createGame_collision_counterexample:
  "snd (makeMoveRPC (\<lambda>x. '''') (Some [''game_id'' \<mapsto> JStr ''g-7'', ''cell'' \<mapsto> JNum 4])
          (snd (createGameRPC 7 Map.empty))) ''g-7'' =
     Some \<lparr>ID = ''g-7'', Board = ''----X----'', Turn = ''O'', Winner = ''''\<rparr> \<and>
   snd (createGameRPC 7
          (snd (makeMoveRPC (\<lambda>x. '''') (Some [''game_id'' \<mapsto> JStr ''g-7'', ''cell'' \<mapsto> JNum 4])
                  (snd (createGameRPC 7 Map.empty))))) ''g-7'' =
     Some \<lparr>ID = ''g-7'', Board = ''---------'', Turn = ''X'', Winner = ''''\<rparr>"
proof -
  have created: "snd (createGameRPC 7 games) =
      games(''g-7'' \<mapsto> \<lparr>ID = ''g-7'', Board = ''---------'', Turn = ''X'', Winner = ''''\<rparr>)"
    for games
    by (simp add: createGameRPC_def newBoard_def Let_def genID_example)
  have idx: "cellIndex (JNum 4) = Inr 4" by (simp add: cellIndex_def int_of_float64_def)
  show ?thesis
    by (simp add: created makeMoveRPC_def idx sprintf_v_def checkWinner_def winLines_def Let_def)
qed

section \<open>Turns and counts\<close>

lemma count_list_update:
  "i < length xs \<Longrightarrow> xs ! i \<noteq> z \<Longrightarrow>
   count_list (xs[i := y]) z = count_list xs z + (if y = z then 1 else 0)"
proof (induction xs arbitrary: i)
  case Nil
  then show ?case by simp
next
  case (Cons x xs)
  then show ?case by (cases i) auto
qed

lemma specApplyMove_board: "Board (specApplyMove game c) = (Board game)[c := hd (Turn game)]"
  by (simp add: specApplyMove_def Let_def)

lemma specApplyMove_ID: "ID (specApplyMove game c) = ID game"
  by (simp add: specApplyMove_def Let_def)

lemma specApplyMove_open_turn:
  assumes "Winner (specApplyMove game c) = ''''"
  shows "Turn (specApplyMove game c) = otherMark (Turn game)"
proof (cases "\<exists>l \<in> set winLines. lineWon ((Board game)[c := hd (Turn game)]) l")
  case True
  then have "specCheckWinner ((Board game)[c := hd (Turn game)]) \<noteq> ''''"
    by (simp add: specCheckWinner_empty_iff)
  moreover from True have
    "Winner (specApplyMove game c) = specCheckWinner ((Board game)[c := hd (Turn game)])"
    by (simp add: specApplyMove_def Let_def)
  ultimately show ?thesis using assms by simp
next
  case False
  with assms show ?thesis
    by (auto simp add: specApplyMove_def Let_def split: if_splits)
qed

lemma specApplyMove_marks:
  assumes "wf_game game" and "c \<le> 8" and "Board game ! c = CHR ''-''"
  shows "marks (CHR ''X'') (specApplyMove game c) =
           marks (CHR ''X'') game + (if Turn game = ''X'' then 1 else 0)"
    and "marks (CHR ''O'') (specApplyMove game c) =
           marks (CHR ''O'') game + (if Turn game = ''O'' then 1 else 0)"
proof -
  from assms(1) have len: "length (Board game) = 9" by (simp add: wf_game_def wf_board_def)
  with assms(2) have bound: "c < length (Board game)" by simp
  from assms(3) have notX: "Board game ! c \<noteq> CHR ''X''" and notO: "Board game ! c \<noteq> CHR ''O''"
    by simp_all
  from assms(1) have turn: "Turn game = ''X'' \<or> Turn game = ''O''" by (simp add: wf_game_def)
  from turn show "marks (CHR ''X'') (specApplyMove game c) =
      marks (CHR ''X'') game + (if Turn game = ''X'' then 1 else 0)"
    by (auto simp add: marks_def specApplyMove_board count_list_update [OF bound notX])
  from turn show "marks (CHR ''O'') (specApplyMove game c) =
      marks (CHR ''O'') game + (if Turn game = ''O'' then 1 else 0)"
    by (auto simp add: marks_def specApplyMove_board count_list_update [OF bound notO])
qed

lemma balanced_specApplyMove:
  assumes "wf_game game" and "balanced game" and "Winner game = ''''"
    and "c \<le> 8" and "Board game ! c = CHR ''-''"
  shows "balanced (specApplyMove game c)"
proof -
  note count = specApplyMove_marks [OF assms(1) assms(4) assms(5)]
  from assms(1) have turn: "Turn game = ''X'' \<or> Turn game = ''O''" by (simp add: wf_game_def)
  have next_turn: "Winner (specApplyMove game c) = '''' \<longrightarrow>
      Turn (specApplyMove game c) = otherMark (Turn game)"
    by (simp add: specApplyMove_open_turn)
  from turn show ?thesis
  proof
    assume x: "Turn game = ''X''"
    with assms(2,3) have "marks (CHR ''X'') game = marks (CHR ''O'') game"
      by (auto simp add: balanced_def split: if_splits)
    with x count next_turn show ?thesis by (simp add: balanced_def otherMark_def)
  next
    assume o: "Turn game = ''O''"
    with assms(2,3) have "marks (CHR ''X'') game = Suc (marks (CHR ''O'') game)"
      by (auto simp add: balanced_def split: if_splits)
    with o count next_turn show ?thesis by (simp add: balanced_def otherMark_def)
  qed
qed

lemma balanced_new: "balanced \<lparr>ID = gid, Board = newBoard, Turn = ''X'', Winner = ''''\<rparr>"
  by (simp add: balanced_def marks_def newBoard_def)

lemma reachable_balanced:
  "reachable other games \<Longrightarrow> games gid = Some game \<Longrightarrow> balanced game"
proof (induction arbitrary: gid game rule: reachable.induct)
  case start
  then show ?case by simp
next
  case (create games n)
  from create.prems create.IH balanced_new show ?case
    by (auto simp add: createGameRPC_def Let_def split: if_splits)
next
  case (move games payload)
  from move.hyps have wf: "wf_store games" by (rule reachable_wf)
  from makeMoveRPC_cases [OF wf, of other payload] show ?case
  proof (elim disjE exE conjE)
    fix e
    assume "makeMoveRPC other payload games = (Inl e, games)"
    with move.prems move.IH show ?thesis by simp
  next
    fix gid' game' c
    assume stored: "games gid' = Some game'" and running: "Winner game' = ''''"
      and cell: "c \<le> 8" "Board game' ! c = CHR ''-''"
      and result: "makeMoveRPC other payload games =
        (Inr (MoveResp (specApplyMove game' c) (Board (specApplyMove game' c))
                (Turn (specApplyMove game' c)) (Winner (specApplyMove game' c))),
         games(gid' \<mapsto> specApplyMove game' c))"
    from wf stored have "wf_game game'" by (simp add: wf_store_def)
    moreover from stored have "balanced game'" by (rule move.IH)
    ultimately have "balanced (specApplyMove game' c)"
      using running cell by (rule balanced_specApplyMove)
    with move.prems result move.IH show ?thesis
      by (auto split: if_splits)
  qed
qed

lemma moved_game:
  assumes "wf_store games" and "games gid = Some game"
    and "snd (makeMoveRPC other payload games) gid = Some game'" and "game' \<noteq> game"
  shows "\<exists>c. c \<le> 8 \<and> Board game ! c = CHR ''-'' \<and> Winner game = '''' \<and>
           game' = specApplyMove game c"
proof -
  from makeMoveRPC_cases [OF assms(1), of other payload] show ?thesis
  proof (elim disjE exE conjE)
    fix e
    assume "makeMoveRPC other payload games = (Inl e, games)"
    with assms(2,3,4) show ?thesis by simp
  next
    fix gid' g c
    assume stored: "games gid' = Some g" and running: "Winner g = ''''"
      and cell: "c \<le> 8" "Board g ! c = CHR ''-''"
      and result: "makeMoveRPC other payload games =
        (Inr (MoveResp (specApplyMove g c) (Board (specApplyMove g c))
                (Turn (specApplyMove g c)) (Winner (specApplyMove g c))),
         games(gid' \<mapsto> specApplyMove g c))"
    show ?thesis
    proof (cases "gid' = gid")
      case True
      with stored assms(2) have "g = game" by simp
      with True result assms(3) running cell show ?thesis by auto
    next
      case False
      with result assms(2,3,4) show ?thesis by simp
    qed
  qed
qed

text \<open>
  C6. In every store the program can reach, every game has as many \<open>X\<close> as \<open>O\<close> or one
  \<open>X\<close> more; while it has no winner, the turn is \<open>X\<close> after an even number of marks and
  \<open>O\<close> after an odd number, so the turns go \<open>X, O, X, O, \<dots>\<close> from the empty board; and
  a call of \<open>makeMoveRPC\<close> that changes the game was made on a game without winner, adds
  exactly one mark, and, unless it ends the game, passes the turn to the other mark.
\<close>

theorem turns_alternate_counts_balanced:
  assumes "reachable other games" and "games gid = Some game"
  shows "(marks (CHR ''X'') game = marks (CHR ''O'') game \<or>
          marks (CHR ''X'') game = marks (CHR ''O'') game + 1) \<and>
         (Winner game = '''' \<longrightarrow>
            Turn game =
              (if even (marks (CHR ''X'') game + marks (CHR ''O'') game) then ''X'' else ''O'')) \<and>
         (\<forall>payload game'.
            snd (makeMoveRPC other payload games) gid = Some game' \<and> game' \<noteq> game \<longrightarrow>
            Winner game = '''' \<and>
            marks (CHR ''X'') game' + marks (CHR ''O'') game' =
              Suc (marks (CHR ''X'') game + marks (CHR ''O'') game) \<and>
            (Winner game' = '''' \<longrightarrow>
               Turn game' \<noteq> Turn game \<and> Turn game' = otherMark (Turn game)))"
proof (intro conjI allI impI)
  from assms have bal: "balanced game" by (rule reachable_balanced)
  then show "marks (CHR ''X'') game = marks (CHR ''O'') game \<or>
      marks (CHR ''X'') game = marks (CHR ''O'') game + 1"
    by (simp add: balanced_def)
  {
    assume "Winner game = ''''"
    with bal show "Turn game =
        (if even (marks (CHR ''X'') game + marks (CHR ''O'') game) then ''X'' else ''O'')"
      by (auto simp add: balanced_def split: if_splits)
  }
  from assms(1) have wf: "wf_store games" by (rule reachable_wf)
  with assms(2) have wfg: "wf_game game" by (simp add: wf_store_def)
  fix payload game'
  assume changed: "snd (makeMoveRPC other payload games) gid = Some game' \<and> game' \<noteq> game"
  then obtain c where c: "c \<le> 8" "Board game ! c = CHR ''-''" and running: "Winner game = ''''"
    and game': "game' = specApplyMove game c"
    using moved_game [OF wf assms(2), of other payload game'] by blast
  from running show "Winner game = ''''" .
  from wfg have turn: "Turn game = ''X'' \<or> Turn game = ''O''" by (simp add: wf_game_def)
  with specApplyMove_marks [OF wfg c] game'
  show "marks (CHR ''X'') game' + marks (CHR ''O'') game' =
      Suc (marks (CHR ''X'') game + marks (CHR ''O'') game)"
    by auto
  {
    assume "Winner game' = ''''"
    with game' have next_turn: "Turn game' = otherMark (Turn game)"
      by (simp add: specApplyMove_open_turn)
    with turn show "Turn game' \<noteq> Turn game" by (auto simp add: otherMark_def)
    from next_turn show "Turn game' = otherMark (Turn game)" .
  }
qed

theorem turns_alternate_counts_balanced_witness:
  "reachable (\<lambda>x. '''')
     (snd (makeMoveRPC (\<lambda>x. '''') (Some [''game_id'' \<mapsto> JStr ''g-7'', ''cell'' \<mapsto> JNum 4])
             (snd (createGameRPC 7 Map.empty)))) \<and>
   snd (makeMoveRPC (\<lambda>x. '''') (Some [''game_id'' \<mapsto> JStr ''g-7'', ''cell'' \<mapsto> JNum 4])
          (snd (createGameRPC 7 Map.empty))) ''g-7'' =
     Some \<lparr>ID = ''g-7'', Board = ''----X----'', Turn = ''O'', Winner = ''''\<rparr> \<and>
   marks (CHR ''X'') \<lparr>ID = ''g-7'', Board = ''----X----'', Turn = ''O'', Winner = ''''\<rparr> =
     marks (CHR ''O'') \<lparr>ID = ''g-7'', Board = ''----X----'', Turn = ''O'', Winner = ''''\<rparr> + 1"
proof -
  let ?games = "snd (makeMoveRPC (\<lambda>x. '''')
      (Some [''game_id'' \<mapsto> JStr ''g-7'', ''cell'' \<mapsto> JNum 4]) (snd (createGameRPC 7 Map.empty)))"
  let ?game = "\<lparr>ID = ''g-7'', Board = ''----X----'', Turn = ''O'', Winner = ''''\<rparr>"
  have "reachable (\<lambda>x. '''') (snd (createGameRPC 7 Map.empty))"
    by (rule reachable.create [OF reachable.start]) simp
  then have reach: "reachable (\<lambda>x. '''') ?games" by (rule reachable.move)
  have created: "snd (createGameRPC 7 Map.empty) =
      [''g-7'' \<mapsto> \<lparr>ID = ''g-7'', Board = ''---------'', Turn = ''X'', Winner = ''''\<rparr>]"
    by (simp add: createGameRPC_def newBoard_def Let_def genID_example)
  have idx: "cellIndex (JNum 4) = Inr 4" by (simp add: cellIndex_def int_of_float64_def)
  have stored: "?games ''g-7'' = Some ?game"
    by (simp add: created makeMoveRPC_def idx sprintf_v_def checkWinner_def winLines_def Let_def)
  from turns_alternate_counts_balanced [OF reach stored]
  have "marks (CHR ''X'') ?game = marks (CHR ''O'') ?game \<or>
      marks (CHR ''X'') ?game = marks (CHR ''O'') ?game + 1"
    by (rule conjunct1)
  moreover have "marks (CHR ''X'') ?game \<noteq> marks (CHR ''O'') ?game"
    by (simp add: marks_def)
  ultimately have "marks (CHR ''X'') ?game = marks (CHR ''O'') ?game + 1" by simp
  with reach stored show ?thesis by (intro conjI)
qed

section \<open>Boards under a sequence of moves\<close>

lemma makeMoveRPC_keeps_marks:
  assumes "wf_store games" and "games gid = Some game"
  shows "\<exists>game'. snd (makeMoveRPC other payload games) gid = Some game' \<and>
           ID game' = ID game \<and>
           (\<forall>i < 9. Board game ! i \<noteq> CHR ''-'' \<longrightarrow> Board game' ! i = Board game ! i)"
proof (cases "snd (makeMoveRPC other payload games) gid = Some game")
  case True
  then show ?thesis by simp
next
  case False
  from makeMoveRPC_cases [OF assms(1), of other payload]
  have "\<exists>game'. snd (makeMoveRPC other payload games) gid = Some game'"
  proof (elim disjE exE conjE)
    fix e
    assume "makeMoveRPC other payload games = (Inl e, games)"
    with assms(2) show ?thesis by simp
  next
    fix gid' g c
    assume "makeMoveRPC other payload games =
        (Inr (MoveResp (specApplyMove g c) (Board (specApplyMove g c))
                (Turn (specApplyMove g c)) (Winner (specApplyMove g c))),
         games(gid' \<mapsto> specApplyMove g c))"
    with assms(2) show ?thesis by (cases "gid' = gid") simp_all
  qed
  then obtain game' where stored: "snd (makeMoveRPC other payload games) gid = Some game'"
    by blast
  with False have "game' \<noteq> game" by auto
  with moved_game [OF assms stored] obtain c where
    c: "Board game ! c = CHR ''-''" and game': "game' = specApplyMove game c"
    by blast
  have "\<forall>i < 9. Board game ! i \<noteq> CHR ''-'' \<longrightarrow> Board game' ! i = Board game ! i"
  proof (intro allI impI)
    fix i :: nat
    assume "i < 9" and "Board game ! i \<noteq> CHR ''-''"
    with c have "i \<noteq> c" by auto
    with game' show "Board game' ! i = Board game ! i" by (simp add: specApplyMove_board)
  qed
  with stored game' show ?thesis by (simp add: specApplyMove_ID)
qed

lemma makeMoves_keeps_marks:
  assumes "wf_store games" and "games gid = Some game"
  shows "\<exists>game'. makeMoves other payloads games gid = Some game' \<and> wf_game game' \<and>
           ID game' = ID game \<and>
           (\<forall>i < 9. Board game ! i \<noteq> CHR ''-'' \<longrightarrow> Board game' ! i = Board game ! i)"
  using assms
proof (induction payloads arbitrary: games game)
  case Nil
  then show ?case by (simp add: wf_store_def)
next
  case (Cons payload rest)
  let ?next = "snd (makeMoveRPC other payload games)"
  from Cons.prems(1) have wf: "wf_store ?next" by (rule wf_store_makeMoveRPC)
  from makeMoveRPC_keeps_marks [OF Cons.prems, of other payload] obtain mid where
    mid: "?next gid = Some mid" and mid_id: "ID mid = ID game"
    and mid_keeps: "\<forall>i < 9. Board game ! i \<noteq> CHR ''-'' \<longrightarrow> Board mid ! i = Board game ! i"
    by blast
  from Cons.IH [OF wf mid] obtain game' where
    last: "makeMoves other rest ?next gid = Some game'" and wf': "wf_game game'"
    and last_id: "ID game' = ID mid"
    and last_keeps: "\<forall>i < 9. Board mid ! i \<noteq> CHR ''-'' \<longrightarrow> Board game' ! i = Board mid ! i"
    by blast
  have "\<forall>i < 9. Board game ! i \<noteq> CHR ''-'' \<longrightarrow> Board game' ! i = Board game ! i"
    using mid_keeps last_keeps by auto
  with last wf' last_id mid_id show ?case by simp
qed

text \<open>
  C7. Take any store the program can reach, any game in it, and any sequence of
  \<open>make_move\<close> calls. The game is still stored under its identifier afterwards; its board
  has nine cells before and after, each of them empty or a mark; and every cell that held
  a mark before holds the same mark after: a cell only ever goes from empty to a mark.
\<close>

theorem cells_only_fill:
  assumes "reachable other games" and "games gid = Some game"
  shows "\<exists>game'. makeMoves other payloads games gid = Some game' \<and>
           ID game' = ID game \<and>
           length (Board game) = 9 \<and> length (Board game') = 9 \<and>
           (\<forall>i < 9. Board game' ! i = CHR ''-'' \<or> Board game' ! i = CHR ''X'' \<or>
                     Board game' ! i = CHR ''O'') \<and>
           (\<forall>i < 9. Board game ! i \<noteq> CHR ''-'' \<longrightarrow> Board game' ! i = Board game ! i)"
proof -
  from assms(1) have wf: "wf_store games" by (rule reachable_wf)
  with assms(2) have "wf_game game" by (simp add: wf_store_def)
  then have len: "length (Board game) = 9" by (simp add: wf_game_def wf_board_def)
  from makeMoves_keeps_marks [OF wf assms(2), of other payloads] obtain game' where
    last: "makeMoves other payloads games gid = Some game'" and wf': "wf_game game'"
    and ident: "ID game' = ID game"
    and keeps: "\<forall>i < 9. Board game ! i \<noteq> CHR ''-'' \<longrightarrow> Board game' ! i = Board game ! i"
    by blast
  from wf' have board': "wf_board (Board game')" by (simp add: wf_game_def)
  then have len': "length (Board game') = 9" by (simp add: wf_board_def)
  from board' have cells: "\<forall>i < 9. Board game' ! i = CHR ''-'' \<or> Board game' ! i = CHR ''X'' \<or>
      Board game' ! i = CHR ''O''"
    by (simp add: wf_board_cell)
  from last ident len len' cells keeps show ?thesis by blast
qed

theorem cells_only_fill_witness:
  "reachable (\<lambda>x. '''') (snd (createGameRPC 7 Map.empty)) \<and>
   snd (createGameRPC 7 Map.empty) ''g-7'' =
     Some \<lparr>ID = ''g-7'', Board = ''---------'', Turn = ''X'', Winner = ''''\<rparr> \<and>
   makeMoves (\<lambda>x. '''')
       [Some [''game_id'' \<mapsto> JStr ''g-7'', ''cell'' \<mapsto> JNum 4],
        Some [''game_id'' \<mapsto> JStr ''g-7'', ''cell'' \<mapsto> JNum 4],
        Some [''game_id'' \<mapsto> JStr ''g-7'', ''cell'' \<mapsto> JNum 0]]
       (snd (createGameRPC 7 Map.empty)) ''g-7'' =
     Some \<lparr>ID = ''g-7'', Board = ''O---X----'', Turn = ''X'', Winner = ''''\<rparr> \<and>
   (\<exists>game'.
      makeMoves (\<lambda>x. '''')
          [Some [''game_id'' \<mapsto> JStr ''g-7'', ''cell'' \<mapsto> JNum 4],
           Some [''game_id'' \<mapsto> JStr ''g-7'', ''cell'' \<mapsto> JNum 4],
           Some [''game_id'' \<mapsto> JStr ''g-7'', ''cell'' \<mapsto> JNum 0]]
          (snd (createGameRPC 7 Map.empty)) ''g-7'' = Some game' \<and>
      length (Board game') = 9)"
proof -
  let ?payloads = "[Some [''game_id'' \<mapsto> JStr ''g-7'', ''cell'' \<mapsto> JNum 4],
        Some [''game_id'' \<mapsto> JStr ''g-7'', ''cell'' \<mapsto> JNum 4],
        Some [''game_id'' \<mapsto> JStr ''g-7'', ''cell'' \<mapsto> JNum 0]]"
  have reach: "reachable (\<lambda>x. '''') (snd (createGameRPC 7 Map.empty))"
    by (rule reachable.create [OF reachable.start]) simp
  have created: "snd (createGameRPC 7 Map.empty) =
      [''g-7'' \<mapsto> \<lparr>ID = ''g-7'', Board = ''---------'', Turn = ''X'', Winner = ''''\<rparr>]"
    by (simp add: createGameRPC_def newBoard_def Let_def genID_example)
  then have stored: "snd (createGameRPC 7 Map.empty) ''g-7'' =
      Some \<lparr>ID = ''g-7'', Board = ''---------'', Turn = ''X'', Winner = ''''\<rparr>"
    by simp
  have idx: "cellIndex (JNum 4) = Inr 4" "cellIndex (JNum 0) = Inr 0"
    by (simp_all add: cellIndex_def int_of_float64_def)
  have played: "makeMoves (\<lambda>x. '''') ?payloads (snd (createGameRPC 7 Map.empty)) ''g-7'' =
      Some \<lparr>ID = ''g-7'', Board = ''O---X----'', Turn = ''X'', Winner = ''''\<rparr>"
    by (simp add: created makeMoveRPC_def idx sprintf_v_def checkWinner_def winLines_def Let_def)
  from cells_only_fill [OF reach stored, of ?payloads] obtain game' where
    "makeMoves (\<lambda>x. '''') ?payloads (snd (createGameRPC 7 Map.empty)) ''g-7'' = Some game'"
    and "length (Board game') = 9"
    by blast
  then have "\<exists>game'.
      makeMoves (\<lambda>x. '''') ?payloads (snd (createGameRPC 7 Map.empty)) ''g-7'' = Some game' \<and>
      length (Board game') = 9"
    by blast
  with reach stored played show ?thesis by (intro conjI)
qed

end
